(* ===== verification/Prelude.thy ===== *)
theory Prelude
  imports Main "HOL-Library.Multiset"
begin

text \<open>
  Shared vocabulary of the development: Go's 64-bit integers as mathematical integers with the
  two's-complement wrap-around written out, fallible computations as values of a sum type, and
  the generic facts on lists, multisets and finite sets that several components use.
\<close>

section \<open>Collections of rules\<close>

named_theorems go_int_simps "arithmetic of 64-bit Go integers"
named_theorems raft_defs "definitions of the Raft node's handlers"
named_theorems bank_defs "definitions of the bank's data access and service layers"

section \<open>Go's 64-bit integers\<close>

text \<open>
  Go's \<open>int64\<close> (and \<open>int\<close> on the 64-bit platforms the program is built for) wraps around
  silently. A variable of such a type is an \<^typ>\<open>int\<close>; the result of every addition,
  subtraction and negation of the source that can leave the range goes through \<open>i64\<close>.
\<close>

definition i64 :: "int \<Rightarrow> int" where
  "i64 x = (x + 2 ^ 63) mod 2 ^ 64 - 2 ^ 63"

abbreviation (input) max_i64 :: int where
  "max_i64 \<equiv> 9223372036854775807"

definition in_i64 :: "int \<Rightarrow> bool" where
  "in_i64 x \<longleftrightarrow> - (2 ^ 63) \<le> x \<and> x < 2 ^ 63"

lemma i64_range [simp]: "in_i64 (i64 x)"
proof -
  have "0 \<le> (x + 2 ^ 63) mod 2 ^ 64" "(x + 2 ^ 63) mod 2 ^ 64 < (2 ^ 64 :: int)"
    by simp_all
  then show ?thesis by (simp add: i64_def in_i64_def)
qed

lemma i64_id [go_int_simps]: "in_i64 x \<Longrightarrow> i64 x = x"
  by (simp add: i64_def in_i64_def)

lemma i64_in_range_iff: "i64 x = x \<longleftrightarrow> in_i64 x"
  by (metis i64_id i64_range)

lemma i64_idem [simp]: "i64 (i64 x) = i64 x"
  by (simp add: i64_id)

lemma i64_cong_mod: "i64 x = i64 y \<longleftrightarrow> x mod 2 ^ 64 = y mod (2 ^ 64 :: int)"
proof -
  have "i64 x = i64 y \<longleftrightarrow> (x + 2 ^ 63) mod 2 ^ 64 = (y + 2 ^ 63) mod (2 ^ 64 :: int)"
    by (simp add: i64_def)
  also have "\<dots> \<longleftrightarrow> x mod 2 ^ 64 = y mod (2 ^ 64 :: int)"
    by (simp add: mod_eq_dvd_iff)
  finally show ?thesis .
qed

lemma i64_mod [simp]: "i64 x mod 2 ^ 64 = x mod 2 ^ 64"
  by (metis i64_cong_mod i64_idem)

lemma i64_add_left [simp]: "i64 (i64 x + y) = i64 (x + y)"
  by (metis i64_cong_mod i64_mod mod_add_left_eq)

lemma i64_add_right [simp]: "i64 (x + i64 y) = i64 (x + y)"
  by (metis add.commute i64_add_left)

lemma in_i64_succ [go_int_simps]: "in_i64 x \<Longrightarrow> x < max_i64 \<Longrightarrow> i64 (x + 1) = x + 1"
  by (simp add: in_i64_def i64_id)

section \<open>Fallible computations\<close>

text \<open>
  A computation that may panic or return an error is a value of \<^typ>\<open>'e + 'a\<close>, the error on
  the left. \<open>bind_res\<close> runs the rest only when the first part succeeded.
\<close>

definition bind_res :: "'e + 'a \<Rightarrow> ('a \<Rightarrow> 'e + 'b) \<Rightarrow> 'e + 'b" where
  "bind_res r f = (case r of Inl e \<Rightarrow> Inl e | Inr x \<Rightarrow> f x)"

lemma bind_res_simps [simp]:
  "bind_res (Inl e) f = Inl e"
  "bind_res (Inr x) f = f x"
  by (simp_all add: bind_res_def)

lemma bind_res_Inr_iff: "bind_res r f = Inr y \<longleftrightarrow> (\<exists>x. r = Inr x \<and> f x = Inr y)"
  by (cases r) auto

lemma bind_res_Inl_iff: "bind_res r f = Inl e \<longleftrightarrow> r = Inl e \<or> (\<exists>x. r = Inr x \<and> f x = Inl e)"
  by (cases r) auto

section \<open>Programs over a world\<close>

text \<open>
  A Go function that returns \<open>(value, error)\<close> and may change the outside world is a function
  from the world to a result and a new world. \<open>bindp\<close> is the pattern \<open>if err != nil { return err }\<close>,
  \<open>on_err\<close> replaces the error that is returned.
\<close>

type_synonym ('w, 'e, 'a) prog = "'w \<Rightarrow> ('e + 'a) \<times> 'w"

definition returnp :: "'a \<Rightarrow> ('w, 'e, 'a) prog" where
  "returnp x w = (Inr x, w)"

definition failp :: "'e \<Rightarrow> ('w, 'e, 'a) prog" where
  "failp e w = (Inl e, w)"

definition bindp :: "('w, 'e, 'a) prog \<Rightarrow> ('a \<Rightarrow> ('w, 'e, 'b) prog) \<Rightarrow> ('w, 'e, 'b) prog" where
  "bindp p f w = (case p w of (Inl e, w1) \<Rightarrow> (Inl e, w1) | (Inr x, w1) \<Rightarrow> f x w1)"

definition on_err :: "('e \<Rightarrow> 'e) \<Rightarrow> ('w, 'e, 'a) prog \<Rightarrow> ('w, 'e, 'a) prog" where
  "on_err h p w = (case p w of (Inl e, w1) \<Rightarrow> (Inl (h e), w1) | (Inr x, w1) \<Rightarrow> (Inr x, w1))"

text \<open>A call that cannot fail, such as reading the clock.\<close>

definition callp :: "('w \<Rightarrow> 'a \<times> 'w) \<Rightarrow> ('w, 'e, 'a) prog" where
  "callp f w = (case f w of (x, w1) \<Rightarrow> (Inr x, w1))"

lemma prog_simps [simp]:
  "returnp x w = (Inr x, w)"
  "failp e w = (Inl e, w)"
  "callp f w = (Inr (fst (f w)), snd (f w))"
  by (simp_all add: returnp_def failp_def callp_def split: prod.splits)

lemma bindp_eq:
  "p w = (Inl e, w1) \<Longrightarrow> bindp p f w = (Inl e, w1)"
  "p w = (Inr x, w1) \<Longrightarrow> bindp p f w = f x w1"
  by (simp_all add: bindp_def)

lemma on_err_eq:
  "p w = (Inl e, w1) \<Longrightarrow> on_err h p w = (Inl (h e), w1)"
  "p w = (Inr x, w1) \<Longrightarrow> on_err h p w = (Inr x, w1)"
  by (simp_all add: on_err_def)

lemma bindpE:
  assumes "bindp p f w = (r, w')"
  obtains (err) e where "p w = (Inl e, w')" "r = Inl e"
  | (ok) x w1 where "p w = (Inr x, w1)" "f x w1 = (r, w')"
  using assms by (auto simp: bindp_def split: prod.splits sum.splits)

lemma on_errE:
  assumes "on_err h p w = (r, w')"
  obtains (err) e where "p w = (Inl e, w')" "r = Inl (h e)"
  | (ok) x where "p w = (Inr x, w')" "r = Inr x"
  using assms by (auto simp: on_err_def split: prod.splits sum.splits)

section \<open>Decimal numbers\<close>

text \<open>\<open>strconv.Itoa\<close> and the \<open>%d\<close> verb.\<close>

fun digits :: "nat \<Rightarrow> string" where
  "digits n = (if n < 10 then [char_of (48 + n)] else digits (n div 10) @ [char_of (48 + n mod 10)])"

declare digits.simps [simp del]

definition itoa :: "int \<Rightarrow> string" where
  "itoa i = (if i < 0 then CHR ''-'' # digits (nat (- i)) else digits (nat i))"

section \<open>Finite sets, lists and multisets\<close>

lemma majorities_meet:
  assumes "finite U" "A \<subseteq> U" "B \<subseteq> U" "card U < card A + card B"
  shows "A \<inter> B \<noteq> {}"
proof
  assume "A \<inter> B = {}"
  moreover have "finite A" "finite B" using assms finite_subset by blast+
  ultimately have "card (A \<union> B) = card A + card B" by (simp add: card_Un_disjoint)
  moreover have "card (A \<union> B) \<le> card U" using assms by (simp add: card_mono)
  ultimately show False using assms(4) by simp
qed

lemma count_mset_map_le_1:
  assumes "distinct xs" "inj_on f (set xs)"
  shows "count (mset (map f xs)) y \<le> 1"
proof -
  have "distinct (map f xs)" using assms by (simp add: distinct_map)
  then show ?thesis by (simp add: distinct_count_atmost_1)
qed

end
