(* ===== verification/Raft_Node.thy ===== *)
theory Raft_Node
  imports Prelude
begin

text \<open>
  The Raft node of \<open>src/internal/raft/node.go\<close>: its data, the four message handlers, the timer
  handler and the three role transitions, as functions from a node to a node or a panic. Logging
  has no effect on the node and is left out, except for the list of changed fields that
  \<open>Step\<close> reports, which is modelled as \<open>stepDiffs\<close>.
\<close>

section \<open>Data\<close>

text \<open>
  \<open>Role\<close> and \<open>MessageType\<close> are string types in Go. The named constants are constructors and
  every other string is kept, because messages are decoded from JSON and the handlers have a
  branch for a role or type that is none of the constants.
\<close>

datatype Role = RoleFollower | RoleCandidate | RoleLeader | RoleOther string

datatype MessageType =
    MessageTypeAppendEntriesReq
  | MessageTypeAppendEntriesRes
  | MessageTypeRequestVoteReq
  | MessageTypeRequestVoteRes
  | MessageTypeOther string

record Message =
  From :: int
  To :: int
  Type :: MessageType
  Ok :: bool
  Term :: int

text \<open>\<open>Event\<close> is \<open>any\<close>: a tick, a message, the unused wrapper type, or anything else.\<close>

datatype Event = Tick | MessageEvent Message | MessageReceived Message | OtherEvent

record node =
  nid :: int
  role :: Role
  nterm :: int
  outbox :: "Message list"
  peerIDs :: "int list"
  lastHeartbeatSentAt :: int
  lastHeartbeatReceivedAt :: int
  electionTimeout :: int
  heartbeatInterval :: int
  votedFor :: int
  votesReceived :: int

datatype panic =
    ExpectedMessageEvent
  | UnknownMessageType MessageType
  | ExpectedButGot MessageType MessageType
  | SplitBrain
  | UnknownRole Role
  | OnlyLeaderCanBroadcast Role
  | FollowerToLeader
  | LeaderToCandidate

definition NewNode :: "int \<Rightarrow> int list \<Rightarrow> int \<Rightarrow> int \<Rightarrow> node" where
  "NewNode i peers electionT heartbeatI =
     \<lparr>nid = i, role = RoleFollower, nterm = 0, outbox = [], peerIDs = peers,
      lastHeartbeatSentAt = 0, lastHeartbeatReceivedAt = 0,
      electionTimeout = electionT, heartbeatInterval = heartbeatI,
      votedFor = 0, votesReceived = 0\<rparr>"

definition Outbox :: "node \<Rightarrow> Message list" where
  "Outbox n = outbox n"

definition ClearOutbox :: "node \<Rightarrow> node" where
  "ClearOutbox n = n\<lparr>outbox := []\<rparr>"

text \<open>\<open>send m n\<close> is the statement \<open>n.outbox = append(n.outbox, m)\<close>.\<close>

definition send :: "Message \<Rightarrow> node \<Rightarrow> node" where
  "send m n = n\<lparr>outbox := outbox n @ [m]\<rparr>"

section \<open>Role transitions\<close>

definition becomeLeader :: "int \<Rightarrow> node \<Rightarrow> panic + node" where
  "becomeLeader t n =
     (if role n = RoleFollower then Inl FollowerToLeader
      else Inr (n\<lparr>role := RoleLeader, nterm := t\<rparr>))"

definition becomeCandidate :: "int \<Rightarrow> node \<Rightarrow> panic + node" where
  "becomeCandidate t n =
     (if role n = RoleLeader then Inl LeaderToCandidate
      else Inr (n\<lparr>role := RoleCandidate, nterm := t, votedFor := nid n, votesReceived := 1\<rparr>))"

definition becomeFollower :: "int \<Rightarrow> node \<Rightarrow> node" where
  "becomeFollower t n =
     (let n1 = (if nterm n \<noteq> t then n\<lparr>nterm := t, votedFor := 0\<rparr> else n)
      in n1\<lparr>role := RoleFollower, votesReceived := 0\<rparr>)"

section \<open>Handlers\<close>

fun appendHeartbeats :: "int list \<Rightarrow> node \<Rightarrow> node" where
  "appendHeartbeats [] n = n"
| "appendHeartbeats (i # is) n =
     appendHeartbeats is
       (send \<lparr>From = nid n, To = i, Type = MessageTypeAppendEntriesReq, Ok = True, Term = nterm n\<rparr> n)"

definition broadcastHeartbeats :: "int \<Rightarrow> node \<Rightarrow> panic + node" where
  "broadcastHeartbeats tick n =
     (if role n \<noteq> RoleLeader then Inl (OnlyLeaderCanBroadcast (role n))
      else Inr ((appendHeartbeats (peerIDs n) n)\<lparr>lastHeartbeatSentAt := tick\<rparr>))"

definition handleRequestVoteRequest :: "Message \<Rightarrow> node \<Rightarrow> panic + node" where
  "handleRequestVoteRequest m n =
     (if Type m \<noteq> MessageTypeRequestVoteReq
      then Inl (ExpectedButGot MessageTypeRequestVoteReq (Type m))
      else if Term m < nterm n
      then Inr (send \<lparr>From = nid n, To = From m, Type = MessageTypeRequestVoteRes,
                      Ok = False, Term = nterm n\<rparr> n)
      else
        let n1 = (if Term m > nterm n then becomeFollower (Term m) n else n)
        in if votedFor n1 \<noteq> 0 \<and> votedFor n1 \<noteq> From m
           then Inr (send \<lparr>From = nid n1, To = From m, Type = MessageTypeRequestVoteRes,
                           Ok = False, Term = nterm n1\<rparr> n1)
           else
             let n2 = n1\<lparr>votedFor := From m\<rparr>
             in Inr (send \<lparr>From = nid n2, To = From m, Type = MessageTypeRequestVoteRes,
                           Ok = True, Term = nterm n2\<rparr> n2))"

text \<open>
  \<open>len(n.peerIDs)/2\<close> is Go's truncating division of a non-negative length, so \<open>div\<close> agrees.
\<close>

definition handleRequestVoteResponse :: "Message \<Rightarrow> int \<Rightarrow> node \<Rightarrow> panic + node" where
  "handleRequestVoteResponse m tick n =
     (if Type m \<noteq> MessageTypeRequestVoteRes
      then Inl (ExpectedButGot MessageTypeRequestVoteRes (Type m))
      else if Term m > nterm n then Inr (becomeFollower (Term m) n)
      else if role n = RoleCandidate \<and> Ok m
      then let n1 = n\<lparr>votesReceived := i64 (votesReceived n + 1)\<rparr>
           in if votesReceived n1 > int (length (peerIDs n1) div 2)
              then bind_res (becomeLeader (nterm n1) n1) (broadcastHeartbeats tick)
              else Inr n1
      else Inr n)"

definition handleAppendEntriesResponse :: "Message \<Rightarrow> node \<Rightarrow> panic + node" where
  "handleAppendEntriesResponse m n =
     (if Type m \<noteq> MessageTypeAppendEntriesRes
      then Inl (ExpectedButGot MessageTypeAppendEntriesRes (Type m))
      else if Term m > nterm n \<and> role n \<noteq> RoleFollower
      then Inr (becomeFollower (Term m) n)
      else Inr n)"

definition handleAppendEntriesRequest :: "Message \<Rightarrow> int \<Rightarrow> node \<Rightarrow> panic + node" where
  "handleAppendEntriesRequest m tick n =
     (if Type m \<noteq> MessageTypeAppendEntriesReq
      then Inl (ExpectedButGot MessageTypeAppendEntriesReq (Type m))
      else if Term m < nterm n
      then Inr (send \<lparr>From = nid n, To = From m, Type = MessageTypeAppendEntriesRes,
                      Ok = False, Term = nterm n\<rparr> n)
      else
        let n1 = (if Term m > nterm n then becomeFollower (Term m) n else n)
        in if role n1 = RoleLeader then Inl SplitBrain
           else
             let n2 = n1\<lparr>lastHeartbeatReceivedAt := tick\<rparr>;
                 successResponse = \<lparr>From = nid n2, To = From m,
                   Type = MessageTypeAppendEntriesRes, Ok = True, Term = nterm n2\<rparr>
             in if role n2 = RoleFollower then Inr (send successResponse n2)
                else if role n2 = RoleCandidate
                then Inr (send successResponse (becomeFollower (Term m) n2))
                else Inl (UnknownRole (role n2)))"

fun appendVoteRequests :: "int list \<Rightarrow> node \<Rightarrow> node" where
  "appendVoteRequests [] n = n"
| "appendVoteRequests (i # is) n =
     appendVoteRequests is
       (send \<lparr>From = nid n, To = i, Type = MessageTypeRequestVoteReq, Ok = True, Term = nterm n\<rparr> n)"

definition handleTick :: "int \<Rightarrow> node \<Rightarrow> panic + node" where
  "handleTick tick n =
     (if role n = RoleLeader
      then let ticksSinceLastHeartbeatSent = i64 (tick - lastHeartbeatSentAt n)
           in if ticksSinceLastHeartbeatSent \<ge> heartbeatInterval n
              then broadcastHeartbeats tick n
              else Inr n
      else
        let ticksSinceLastHeartbeatReceived = i64 (tick - lastHeartbeatReceivedAt n)
        in if ticksSinceLastHeartbeatReceived \<ge> electionTimeout n
           then
             let newTerm = i64 (nterm n + 1)
             in bind_res (becomeCandidate newTerm (n\<lparr>lastHeartbeatReceivedAt := tick\<rparr>))
                  (\<lambda>n1. if length (peerIDs n1) = 0
                        then bind_res (becomeLeader (nterm n1) n1) (broadcastHeartbeats tick)
                        else Inr (appendVoteRequests (peerIDs n1) n1))
           else Inr n)"

definition Step :: "Event \<Rightarrow> int \<Rightarrow> node \<Rightarrow> panic + node" where
  "Step event tick n =
     (case event of
        Tick \<Rightarrow> handleTick tick n
      | MessageEvent m \<Rightarrow>
          (if Type m = MessageTypeAppendEntriesReq then handleAppendEntriesRequest m tick n
           else if Type m = MessageTypeAppendEntriesRes then handleAppendEntriesResponse m n
           else if Type m = MessageTypeRequestVoteReq then handleRequestVoteRequest m n
           else if Type m = MessageTypeRequestVoteRes then handleRequestVoteResponse m tick n
           else Inl (UnknownMessageType (Type m)))
      | _ \<Rightarrow> Inl ExpectedMessageEvent)"


text \<open>
  The state the log line of \<open>Step\<close> compares before and after, and the pairs it reports.
\<close>

record debugState =
  dRole :: Role
  dTerm :: int
  dVotedFor :: int
  dVotesReceived :: int

definition captureDebugState :: "node \<Rightarrow> debugState" where
  "captureDebugState n =
     \<lparr>dRole = role n, dTerm = nterm n, dVotedFor = votedFor n, dVotesReceived = votesReceived n\<rparr>"

datatype diff =
    RoleDiff Role Role
  | TermDiff int int
  | VotedForDiff int int
  | VotesReceivedDiff int int

definition stepDiffs :: "debugState \<Rightarrow> debugState \<Rightarrow> diff list" where
  "stepDiffs before after =
     (if dRole before \<noteq> dRole after then [RoleDiff (dRole before) (dRole after)] else []) @
     (if dTerm before \<noteq> dTerm after then [TermDiff (dTerm before) (dTerm after)] else []) @
     (if dVotedFor before \<noteq> dVotedFor after
      then [VotedForDiff (dVotedFor before) (dVotedFor after)] else []) @
     (if dVotesReceived before \<noteq> dVotesReceived after
      then [VotesReceivedDiff (dVotesReceived before) (dVotesReceived after)] else [])"

lemmas [raft_defs] =
  becomeLeader_def becomeCandidate_def becomeFollower_def broadcastHeartbeats_def
  handleRequestVoteRequest_def handleRequestVoteResponse_def
  handleAppendEntriesResponse_def handleAppendEntriesRequest_def handleTick_def Step_def send_def

section \<open>Messages a node writes\<close>

definition heartbeats :: "node \<Rightarrow> Message list" where
  "heartbeats n =
     map (\<lambda>i. \<lparr>From = nid n, To = i, Type = MessageTypeAppendEntriesReq, Ok = True, Term = nterm n\<rparr>)
       (peerIDs n)"

definition voteRequests :: "node \<Rightarrow> Message list" where
  "voteRequests n =
     map (\<lambda>i. \<lparr>From = nid n, To = i, Type = MessageTypeRequestVoteReq, Ok = True, Term = nterm n\<rparr>)
       (peerIDs n)"

lemma appendHeartbeats_outbox:
  "appendHeartbeats is n = n\<lparr>outbox := outbox n @
     map (\<lambda>i. \<lparr>From = nid n, To = i, Type = MessageTypeAppendEntriesReq, Ok = True, Term = nterm n\<rparr>) is\<rparr>"
  by (induction "is" arbitrary: n) (simp_all add: send_def)

lemma appendVoteRequests_outbox:
  "appendVoteRequests is n = n\<lparr>outbox := outbox n @
     map (\<lambda>i. \<lparr>From = nid n, To = i, Type = MessageTypeRequestVoteReq, Ok = True, Term = nterm n\<rparr>) is\<rparr>"
  by (induction "is" arbitrary: n) (simp_all add: send_def)

lemma broadcastHeartbeats_leader:
  "role n = RoleLeader \<Longrightarrow>
   broadcastHeartbeats tick n =
     Inr (n\<lparr>outbox := outbox n @ heartbeats n, lastHeartbeatSentAt := tick\<rparr>)"
  by (simp add: broadcastHeartbeats_def appendHeartbeats_outbox heartbeats_def)

section \<open>Well-formed nodes\<close>

text \<open>
  What the handlers keep true of a node: its role is one of the three constants, a candidate
  or leader has voted for itself, a follower counts no votes, and a leader has more votes than
  half its peers. The counters stay below the largest \<open>int\<close>.
\<close>

definition node_ok :: "node \<Rightarrow> bool" where
  "node_ok n \<longleftrightarrow>
     role n \<in> {RoleFollower, RoleCandidate, RoleLeader} \<and>
     (role n \<noteq> RoleFollower \<longrightarrow> votedFor n = nid n \<and> 1 \<le> votesReceived n) \<and>
     (role n = RoleFollower \<longrightarrow> votesReceived n = 0) \<and>
     (role n = RoleLeader \<longrightarrow> int (length (peerIDs n) div 2) < votesReceived n)"

definition no_overflow :: "node \<Rightarrow> bool" where
  "no_overflow n \<longleftrightarrow> in_i64 (nterm n) \<and> nterm n < max_i64 \<and>
     in_i64 (votesReceived n) \<and> votesReceived n < max_i64"

lemma no_overflow_succ [simp]:
  "no_overflow n \<Longrightarrow> i64 (nterm n + 1) = nterm n + 1"
  "no_overflow n \<Longrightarrow> i64 (votesReceived n + 1) = votesReceived n + 1"
  by (simp_all add: no_overflow_def in_i64_succ)

section \<open>The moves of a node\<close>

text \<open>
  An abstract view of one step that forgets the timers: which of the role, the term, the vote
  and the vote count change and which messages are written. A reply is \<open>inert\<close> when it grants
  nothing: a refused vote or the answer to a heartbeat.
\<close>

definition inert :: "node \<Rightarrow> Message \<Rightarrow> Message \<Rightarrow> bool" where
  "inert n m r \<longleftrightarrow> From r = nid n \<and> To r = From m \<and> Term r = nterm n \<and>
     (Type m = MessageTypeAppendEntriesReq \<and> Type r = MessageTypeAppendEntriesRes \<or>
      Type m = MessageTypeRequestVoteReq \<and> Type r = MessageTypeRequestVoteRes \<and> \<not> Ok r)"

definition keeps_identity :: "node \<Rightarrow> node \<Rightarrow> bool" where
  "keeps_identity n n' \<longleftrightarrow> nid n' = nid n \<and> peerIDs n' = peerIDs n \<and>
     electionTimeout n' = electionTimeout n \<and> heartbeatInterval n' = heartbeatInterval n"

definition same_view :: "node \<Rightarrow> node \<Rightarrow> bool" where
  "same_view n n' \<longleftrightarrow> role n' = role n \<and> nterm n' = nterm n \<and>
     votedFor n' = votedFor n \<and> votesReceived n' = votesReceived n"

inductive node_move :: "node \<Rightarrow> Event \<Rightarrow> Message list \<Rightarrow> node \<Rightarrow> bool" where
  idle: "node_move n e [] n'"
    if "keeps_identity n n'" "same_view n n'"
| answer: "node_move n (MessageEvent m) [r] n'"
    if "keeps_identity n n'" "same_view n n'" "inert n' m r"
| heartbeat: "node_move n Tick (heartbeats n) n'"
    if "keeps_identity n n'" "same_view n n'" "role n = RoleLeader"
| stepdown: "node_move n (MessageEvent m) ms n'"
    if "keeps_identity n n'" "nterm n \<le> Term m" "nterm n' = Term m" "role n' = RoleFollower"
       "votesReceived n' = 0" "votedFor n' = (if nterm n = Term m then votedFor n else 0)"
       "ms = [] \<or> (\<exists>r. ms = [r] \<and> inert n' m r)"
| grant: "node_move n (MessageEvent m)
            [\<lparr>From = nid n, To = From m, Type = MessageTypeRequestVoteRes, Ok = True, Term = Term m\<rparr>] n'"
    if "keeps_identity n n'" "Type m = MessageTypeRequestVoteReq" "nterm n \<le> Term m"
       "nterm n' = Term m" "votedFor n' = From m"
       "nterm n = Term m \<longrightarrow> votedFor n = 0 \<or> votedFor n = From m"
       "nterm n = Term m \<longrightarrow> role n' = role n \<and> votesReceived n' = votesReceived n"
       "nterm n \<noteq> Term m \<longrightarrow> role n' = RoleFollower \<and> votesReceived n' = 0"
| campaign: "node_move n Tick (voteRequests n') n'"
    if "keeps_identity n n'" "role n \<noteq> RoleLeader" "peerIDs n \<noteq> []" "nterm n' = nterm n + 1"
       "role n' = RoleCandidate" "votedFor n' = nid n" "votesReceived n' = 1"
| solo: "node_move n Tick [] n'"
    if "keeps_identity n n'" "role n \<noteq> RoleLeader" "peerIDs n = []" "nterm n' = nterm n + 1"
       "role n' = RoleLeader" "votedFor n' = nid n" "votesReceived n' = 1"
| tally: "node_move n (MessageEvent m) [] n'"
    if "keeps_identity n n'" "Type m = MessageTypeRequestVoteRes" "Ok m" "Term m \<le> nterm n"
       "role n = RoleCandidate" "role n' = RoleCandidate" "nterm n' = nterm n"
       "votedFor n' = votedFor n" "votesReceived n' = votesReceived n + 1"
       "votesReceived n' \<le> int (length (peerIDs n) div 2)"
| win: "node_move n (MessageEvent m) (heartbeats n) n'"
    if "keeps_identity n n'" "Type m = MessageTypeRequestVoteRes" "Ok m" "Term m \<le> nterm n"
       "role n = RoleCandidate" "role n' = RoleLeader" "nterm n' = nterm n"
       "votedFor n' = votedFor n" "votesReceived n' = votesReceived n + 1"
       "votesReceived n' > int (length (peerIDs n) div 2)"

lemmas view_defs = keeps_identity_def same_view_def inert_def


lemma handleTick_move:
  assumes "handleTick tick n = Inr n'" "no_overflow n"
  shows "\<exists>ms. outbox n' = outbox n @ ms \<and> node_move n Tick ms n'"
proof (cases "role n = RoleLeader")
  case True
  with assms(1) consider "n' = n"
    | "n' = n\<lparr>outbox := outbox n @ heartbeats n, lastHeartbeatSentAt := tick\<rparr>"
    by (auto simp: handleTick_def Let_def broadcastHeartbeats_leader split: if_splits)
  then show ?thesis
  proof cases
    case 1
    then show ?thesis
      by (intro exI [of _ "[]"]) (auto intro!: node_move.idle simp: view_defs)
  next
    case 2
    with True show ?thesis
      by (intro exI [of _ "heartbeats n"]) (auto intro!: node_move.heartbeat simp: view_defs)
  qed
next
  case False
  let ?c = "n\<lparr>lastHeartbeatReceivedAt := tick, role := RoleCandidate, nterm := nterm n + 1,
              votedFor := nid n, votesReceived := 1\<rparr>"
  let ?l = "?c\<lparr>role := RoleLeader, lastHeartbeatSentAt := tick\<rparr>"
  let ?v = "?c\<lparr>outbox := outbox n @ voteRequests ?c\<rparr>"
  have "handleTick tick n =
      (if i64 (tick - lastHeartbeatReceivedAt n) \<ge> electionTimeout n
       then (if peerIDs n = [] then Inr ?l else Inr ?v) else Inr n)"
    using False assms(2)
    by (simp add: handleTick_def Let_def becomeCandidate_def becomeLeader_def
        broadcastHeartbeats_leader heartbeats_def appendVoteRequests_outbox voteRequests_def)
  with assms(1) consider "n' = n" | "peerIDs n = []" "n' = ?l" | "peerIDs n \<noteq> []" "n' = ?v"
    by (metis sum.inject(2))
  then show ?thesis
  proof cases
    case 1
    then show ?thesis
      by (intro exI [of _ "[]"]) (auto intro!: node_move.idle simp: view_defs)
  next
    case 2
    with False show ?thesis
      by (intro exI [of _ "[]"]) (auto intro!: node_move.solo simp: view_defs)
  next
    case 3
    have vr: "voteRequests n' = voteRequests ?c" using 3 by (simp add: voteRequests_def)
    have "node_move n Tick (voteRequests n') n'"
      by (rule node_move.campaign) (use False 3 in \<open>auto simp: view_defs\<close>)
    moreover have "outbox n' = outbox n @ voteRequests n'" using 3 vr by simp
    ultimately show ?thesis by blast
  qed
qed

lemma handleRequestVoteRequest_move:
  assumes "handleRequestVoteRequest m n = Inr n'"
  shows "\<exists>ms. outbox n' = outbox n @ ms \<and> node_move n (MessageEvent m) ms n'"
proof -
  let ?no = "\<lambda>t. \<lparr>From = nid n, To = From m, Type = MessageTypeRequestVoteRes, Ok = False, Term = t\<rparr>"
  let ?yes = "\<lparr>From = nid n, To = From m, Type = MessageTypeRequestVoteRes, Ok = True, Term = Term m\<rparr>"
  from assms have ty: "Type m = MessageTypeRequestVoteReq"
    by (auto simp: handleRequestVoteRequest_def split: if_splits)
  consider (old) "Term m < nterm n" | (same) "Term m = nterm n" | (new) "nterm n < Term m"
    by linarith
  then show ?thesis
  proof cases
    case old
    with assms ty have "n' = send (?no (nterm n)) n" by (simp add: handleRequestVoteRequest_def)
    then show ?thesis
      by (intro exI [of _ "[?no (nterm n)]"])
         (use ty in \<open>auto simp: send_def view_defs intro!: node_move.answer\<close>)
  next
    case same
    show ?thesis
    proof (cases "votedFor n \<noteq> 0 \<and> votedFor n \<noteq> From m")
      case True
      with same assms ty have "n' = send (?no (nterm n)) n"
        by (simp add: handleRequestVoteRequest_def)
      then show ?thesis
        by (intro exI [of _ "[?no (nterm n)]"])
           (use ty in \<open>auto simp: send_def view_defs intro!: node_move.answer\<close>)
    next
      case False
      with same assms ty have n': "n' = send ?yes (n\<lparr>votedFor := From m\<rparr>)"
        by (auto simp: handleRequestVoteRequest_def Let_def)
      have "node_move n (MessageEvent m) [?yes] n'"
        by (rule node_move.grant) (use False same ty n' in \<open>auto simp: send_def view_defs\<close>)
      with n' show ?thesis by (auto simp: send_def)
    qed
  next
    case new
    with assms ty have n': "n' = send ?yes (n\<lparr>nterm := Term m, role := RoleFollower,
        votesReceived := 0, votedFor := From m\<rparr>)"
      by (auto simp: handleRequestVoteRequest_def Let_def becomeFollower_def)
    have "node_move n (MessageEvent m) [?yes] n'"
      by (rule node_move.grant) (use new ty n' in \<open>auto simp: send_def view_defs\<close>)
    with n' show ?thesis by (auto simp: send_def)
  qed
qed

lemma handleRequestVoteResponse_move:
  assumes "handleRequestVoteResponse m tick n = Inr n'" "no_overflow n"
  shows "\<exists>ms. outbox n' = outbox n @ ms \<and> node_move n (MessageEvent m) ms n'"
proof -
  let ?v = "n\<lparr>votesReceived := votesReceived n + 1\<rparr>"
  from assms(1) have ty: "Type m = MessageTypeRequestVoteRes"
    by (auto simp: handleRequestVoteResponse_def split: if_splits)
  consider (new) "nterm n < Term m"
    | (ignore) "Term m \<le> nterm n" "role n = RoleCandidate \<longrightarrow> \<not> Ok m"
    | (count) "Term m \<le> nterm n" "role n = RoleCandidate" "Ok m"
    by linarith
  then show ?thesis
  proof cases
    case new
    with assms ty have n': "n' = n\<lparr>nterm := Term m, votedFor := 0, role := RoleFollower, votesReceived := 0\<rparr>"
      by (auto simp: handleRequestVoteResponse_def Let_def becomeFollower_def)
    have "node_move n (MessageEvent m) [] n'"
      by (rule node_move.stepdown) (use new n' in \<open>auto simp: view_defs\<close>)
    with n' show ?thesis by auto
  next
    case ignore
    with assms ty have n': "n' = n" by (auto simp: handleRequestVoteResponse_def)
    have "node_move n (MessageEvent m) [] n'"
      by (simp add: node_move.idle view_defs n')
    with n' show ?thesis by auto
  next
    case count
    show ?thesis
    proof (cases "votesReceived ?v > int (length (peerIDs n) div 2)")
      case True
      with count assms ty have n': "n' = ?v\<lparr>role := RoleLeader, outbox := outbox n @ heartbeats n,
          lastHeartbeatSentAt := tick\<rparr>"
        by (auto simp: handleRequestVoteResponse_def Let_def becomeLeader_def
            broadcastHeartbeats_leader heartbeats_def)
      have "node_move n (MessageEvent m) (heartbeats n) n'"
        by (rule node_move.win) (use count ty n' True in \<open>auto simp: view_defs\<close>)
      with n' show ?thesis by auto
    next
      case False
      with count assms ty have n': "n' = ?v"
        by (auto simp: handleRequestVoteResponse_def Let_def)
      have "node_move n (MessageEvent m) [] n'"
        by (rule node_move.tally) (use count ty n' False in \<open>auto simp: view_defs\<close>)
      with n' show ?thesis by auto
    qed
  qed
qed

lemma handleAppendEntriesResponse_move:
  assumes "handleAppendEntriesResponse m n = Inr n'"
  shows "\<exists>ms. outbox n' = outbox n @ ms \<and> node_move n (MessageEvent m) ms n'"
proof (cases "Term m > nterm n \<and> role n \<noteq> RoleFollower")
  case True
  with assms have n': "n' = n\<lparr>nterm := Term m, votedFor := 0, role := RoleFollower, votesReceived := 0\<rparr>"
    by (auto simp: handleAppendEntriesResponse_def becomeFollower_def split: if_splits)
  have "node_move n (MessageEvent m) [] n'"
    by (rule node_move.stepdown) (use True n' in \<open>auto simp: view_defs\<close>)
  with n' show ?thesis by auto
next
  case False
  with assms have n': "n' = n" by (auto simp: handleAppendEntriesResponse_def split: if_splits)
  have "node_move n (MessageEvent m) [] n'"
    by (simp add: node_move.idle view_defs n')
  with n' show ?thesis by auto
qed

lemma handleAppendEntriesRequest_move:
  assumes "handleAppendEntriesRequest m tick n = Inr n'" "node_ok n"
  shows "\<exists>ms. outbox n' = outbox n @ ms \<and> node_move n (MessageEvent m) ms n'"
proof -
  let ?r = "\<lambda>ok t. \<lparr>From = nid n, To = From m, Type = MessageTypeAppendEntriesRes, Ok = ok, Term = t\<rparr>"
  from assms(1) have ty: "Type m = MessageTypeAppendEntriesReq"
    by (auto simp: handleAppendEntriesRequest_def split: if_splits)
  consider (old) "Term m < nterm n" | (same) "Term m = nterm n" | (new) "nterm n < Term m"
    by linarith
  then show ?thesis
  proof cases
    case old
    with assms ty have n': "n' = send (?r False (nterm n)) n"
      by (simp add: handleAppendEntriesRequest_def)
    have "node_move n (MessageEvent m) [?r False (nterm n)] n'"
      by (rule node_move.answer) (use ty in \<open>auto simp: n' send_def view_defs\<close>)
    with n' show ?thesis by (auto simp: send_def)
  next
    case same
    with assms ty have n': "n' = send (?r True (Term m))
        (n\<lparr>lastHeartbeatReceivedAt := tick, role := RoleFollower, votesReceived := 0\<rparr>)"
      by (auto simp: handleAppendEntriesRequest_def Let_def becomeFollower_def node_ok_def
          send_def split: if_splits)
    have "node_move n (MessageEvent m) [?r True (Term m)] n'"
      by (rule node_move.stepdown) (use same n' ty in \<open>auto simp: send_def view_defs\<close>)
    with n' show ?thesis by (auto simp: send_def)
  next
    case new
    with assms ty have n': "n' = send (?r True (Term m))
        (n\<lparr>nterm := Term m, votedFor := 0, role := RoleFollower, votesReceived := 0,
           lastHeartbeatReceivedAt := tick\<rparr>)"
      by (auto simp: handleAppendEntriesRequest_def Let_def becomeFollower_def)
    have "node_move n (MessageEvent m) [?r True (Term m)] n'"
      by (rule node_move.stepdown) (use new n' ty in \<open>auto simp: send_def view_defs\<close>)
    with n' show ?thesis by (auto simp: send_def)
  qed
qed

lemma Step_move:
  assumes "Step e tick n = Inr n'" "node_ok n" "no_overflow n"
  shows "\<exists>ms. outbox n' = outbox n @ ms \<and> node_move n e ms n'"
  using assms
  by (auto simp: Step_def split: Event.splits if_splits
      dest: handleTick_move handleRequestVoteRequest_move handleRequestVoteResponse_move
        handleAppendEntriesResponse_move handleAppendEntriesRequest_move)

lemma node_move_ok:
  "node_move n e ms n' \<Longrightarrow> node_ok n \<Longrightarrow> nid n \<noteq> 0 \<Longrightarrow> node_ok n'"
proof (induction rule: node_move.induct)
  case (grant n n' m)
  then show ?case by (cases "nterm n = Term m") (auto simp: node_ok_def view_defs)
qed (auto simp: node_ok_def view_defs)


lemma node_move_identity: "node_move n e ms n' \<Longrightarrow> keeps_identity n n'"
  by (induction rule: node_move.induct) auto

lemma node_move_vote:
  assumes "node_move n e ms n'" "node_ok n"
  shows "nterm n \<le> nterm n'"
    and "nterm n' = nterm n \<Longrightarrow> votedFor n \<noteq> 0 \<Longrightarrow> votedFor n' = votedFor n"
  using assms by (induction rule: node_move.induct) (auto simp: view_defs node_ok_def)

lemma node_move_messages:
  assumes "node_move n e ms n'" "m \<in> set ms"
  shows "From m = nid n" "Term m = nterm n'"
  using assms
  by (induction rule: node_move.induct)
     (auto simp: view_defs heartbeats_def voteRequests_def)

lemma node_move_leader:
  assumes "node_move n e ms n'" "role n \<noteq> RoleLeader" "role n' = RoleLeader"
  shows "nterm n' = nterm n + 1 \<and> peerIDs n = [] \<and> e = Tick \<and> ms = [] \<or>
     role n = RoleCandidate \<and> nterm n' = nterm n \<and> ms = heartbeats n' \<and>
     int (length (peerIDs n) div 2) < votesReceived n + 1 \<and>
     (\<exists>m. e = MessageEvent m \<and> Type m = MessageTypeRequestVoteRes \<and> Ok m \<and> Term m \<le> nterm n)"
  using assms
  by (induction rule: node_move.induct) (auto simp: view_defs heartbeats_def)

section \<open>What a step does\<close>

text \<open>C28: A step that does not panic keeps a well-formed node well formed: the role stays one of the
  three constants, a candidate or leader has voted for itself and holds at least its own vote, a
  follower holds none, and a leader holds more votes than half its peers.\<close>

theorem step_keeps_node_ok:
  assumes "node_ok n" "no_overflow n" "nid n \<noteq> 0" "Step e tick n = Inr n'"
  shows "node_ok n'"
  using assms by (blast dest: Step_move intro: node_move_ok)

theorem step_keeps_node_ok_witness:
  "\<exists>n'. Step Tick 10 (NewNode 1 [2, 3] 10 2) = Inr n' \<and> node_ok n' \<and> role n' = RoleCandidate"
proof -
  let ?n = "NewNode 1 [2, 3] 10 2"
  let ?v = "\<lambda>i. \<lparr>From = 1, To = i, Type = MessageTypeRequestVoteReq, Ok = True, Term = 1\<rparr>"
  let ?n' = "?n\<lparr>lastHeartbeatReceivedAt := 10, role := RoleCandidate, nterm := 1,
                votedFor := 1, votesReceived := 1, outbox := [?v 2, ?v 3]\<rparr>"
  have st: "Step Tick 10 ?n = Inr ?n'"
    by (simp add: raft_defs NewNode_def i64_def)
  have "node_ok ?n'"
    by (rule step_keeps_node_ok [OF _ _ _ st])
       (simp_all add: node_ok_def no_overflow_def in_i64_def NewNode_def)
  with st show ?thesis by auto
qed

text \<open>C8: Terms never go back, and a node votes at most once per term: while the term stays the same,
  a vote once given is never changed or withdrawn, whatever messages and ticks arrive.\<close>

theorem step_votes_once_per_term:
  assumes "node_ok n" "no_overflow n" "Step e tick n = Inr n'"
  shows "nterm n \<le> nterm n' \<and>
    (nterm n' = nterm n \<and> votedFor n \<noteq> 0 \<longrightarrow> votedFor n' = votedFor n)"
  using assms by (blast dest: Step_move node_move_vote)

theorem step_votes_once_per_term_witness:
  "\<exists>n'. Step (MessageEvent \<lparr>From = 3, To = 1, Type = MessageTypeRequestVoteReq, Ok = True, Term = 1\<rparr>) 5
         ((NewNode 1 [2, 3] 10 2)\<lparr>nterm := 1, votedFor := 2\<rparr>) = Inr n' \<and> votedFor n' = 2"
proof -
  let ?n = "(NewNode 1 [2, 3] 10 2)\<lparr>nterm := 1, votedFor := 2\<rparr>"
  let ?e = "MessageEvent \<lparr>From = 3, To = 1, Type = MessageTypeRequestVoteReq, Ok = True, Term = 1\<rparr>"
  let ?n' = "?n\<lparr>outbox := [\<lparr>From = 1, To = 3, Type = MessageTypeRequestVoteRes, Ok = False, Term = 1\<rparr>]\<rparr>"
  have st: "Step ?e 5 ?n = Inr ?n'"
    by (simp add: raft_defs NewNode_def)
  have "nterm ?n \<le> nterm ?n' \<and>
      (nterm ?n' = nterm ?n \<and> votedFor ?n \<noteq> 0 \<longrightarrow> votedFor ?n' = votedFor ?n)"
    by (rule step_votes_once_per_term [OF _ _ st])
       (simp_all add: node_ok_def no_overflow_def in_i64_def NewNode_def)
  with st show ?thesis by auto
qed

lemma step_panics_char:
  assumes "node_ok n"
  shows "Step e tick n = Inl p \<longleftrightarrow>
    (case e of
       Tick \<Rightarrow> False
     | MessageEvent m \<Rightarrow>
         (\<exists>s. Type m = MessageTypeOther s) \<and> p = UnknownMessageType (Type m) \<or>
         Type m = MessageTypeAppendEntriesReq \<and> role n = RoleLeader \<and> Term m = nterm n \<and> p = SplitBrain
     | _ \<Rightarrow> p = ExpectedMessageEvent)"
proof (cases e)
  case Tick
  then show ?thesis
    by (auto simp: Step_def handleTick_def Let_def becomeCandidate_def becomeLeader_def
        broadcastHeartbeats_def)
next
  case (MessageEvent m)
  show ?thesis
  proof (cases "Type m")
    case MessageTypeAppendEntriesReq
    with MessageEvent assms show ?thesis
      by (auto simp: Step_def handleAppendEntriesRequest_def Let_def becomeFollower_def node_ok_def)
  qed (use MessageEvent in \<open>auto simp: Step_def handleAppendEntriesResponse_def Let_def
        handleRequestVoteRequest_def handleRequestVoteResponse_def becomeLeader_def
        broadcastHeartbeats_def\<close>)
qed (auto simp: Step_def)

text \<open>C26: The panics of a well-formed node, exactly: an event that is neither a tick nor a message,
  a message of a type the node does not know, and a heartbeat of the node's own term while it
  is leader. The transition guards, the broadcast guard and the unknown-role branch never fire.\<close>

theorem step_panics_iff:
  assumes "node_ok n"
  shows "Step e tick n = Inl p \<longleftrightarrow>
    (case e of
       Tick \<Rightarrow> False
     | MessageEvent m \<Rightarrow>
         (\<exists>s. Type m = MessageTypeOther s) \<and> p = UnknownMessageType (Type m) \<or>
         Type m = MessageTypeAppendEntriesReq \<and> role n = RoleLeader \<and> Term m = nterm n \<and> p = SplitBrain
     | _ \<Rightarrow> p = ExpectedMessageEvent)"
  using assms by (rule step_panics_char)

theorem step_panics_iff_witness:
  "Step (MessageEvent \<lparr>From = 2, To = 1, Type = MessageTypeAppendEntriesReq, Ok = True, Term = 1\<rparr>) 20
     ((NewNode 1 [2, 3] 10 2)\<lparr>role := RoleLeader, nterm := 1, votedFor := 1, votesReceived := 2\<rparr>)
   = Inl SplitBrain"
  by (subst step_panics_iff) (simp_all add: node_ok_def NewNode_def)

text \<open>C27: Every vote request is answered with one message to the candidate. The vote is granted exactly
  when the request's term is newer than the node's, or is the node's own term and the node has
  not voted for somebody else; the answer carries the node's term after the step.\<close>

theorem vote_request_answered:
  assumes "Type m = MessageTypeRequestVoteReq"
  shows "\<exists>n'. Step (MessageEvent m) tick n = Inr n' \<and>
    nterm n' = max (nterm n) (Term m) \<and>
    outbox n' = outbox n @
      [\<lparr>From = nid n, To = From m, Type = MessageTypeRequestVoteRes,
        Ok = (nterm n < Term m \<or> nterm n = Term m \<and> (votedFor n = 0 \<or> votedFor n = From m)),
        Term = nterm n'\<rparr>] \<and>
    votedFor n' =
      (if nterm n < Term m \<or> nterm n = Term m \<and> (votedFor n = 0 \<or> votedFor n = From m)
       then From m else votedFor n)"
  using assms
  by (auto simp: Step_def handleRequestVoteRequest_def becomeFollower_def send_def Let_def max_def)

theorem vote_request_answered_witness:
  "\<exists>n'. Step (MessageEvent \<lparr>From = 2, To = 1, Type = MessageTypeRequestVoteReq, Ok = True, Term = 4\<rparr>) 0
         (NewNode 1 [2, 3] 10 2) = Inr n' \<and> votedFor n' = 2 \<and> nterm n' = 4"
  using vote_request_answered [of "\<lparr>From = 2, To = 1, Type = MessageTypeRequestVoteReq, Ok = True, Term = 4\<rparr>"
      0 "NewNode 1 [2, 3] 10 2"]
  by (auto simp: NewNode_def)

text \<open>C25: A node becomes leader in two ways only: as the only node of its cluster when its election
  timer fires, or as a candidate that receives a granted vote and then holds more votes than half
  its peers; in the second case it announces itself with one heartbeat to every peer.\<close>

theorem step_becomes_leader:
  assumes "node_ok n" "no_overflow n" "Step e tick n = Inr n'"
    and "role n \<noteq> RoleLeader" "role n' = RoleLeader"
  shows "e = Tick \<and> peerIDs n = [] \<and> nterm n' = nterm n + 1 \<or>
    (\<exists>m. e = MessageEvent m \<and> Type m = MessageTypeRequestVoteRes \<and> Ok m \<and> role n = RoleCandidate \<and>
       nterm n' = nterm n \<and> int (length (peerIDs n) div 2) < votesReceived n + 1 \<and>
       outbox n' = outbox n @ heartbeats n')"
proof -
  from assms obtain ms where "outbox n' = outbox n @ ms" "node_move n e ms n'"
    by (blast dest: Step_move)
  with assms(4,5) show ?thesis by (auto dest!: node_move_leader)
qed

theorem step_becomes_leader_witness:
  "\<exists>n'. Step (MessageEvent \<lparr>From = 2, To = 1, Type = MessageTypeRequestVoteRes, Ok = True, Term = 1\<rparr>) 10
      ((NewNode 1 [2, 3] 10 2)\<lparr>role := RoleCandidate, nterm := 1, votedFor := 1, votesReceived := 1\<rparr>)
      = Inr n' \<and> outbox n' = heartbeats n'"
proof -
  let ?n = "(NewNode 1 [2, 3] 10 2)\<lparr>role := RoleCandidate, nterm := 1, votedFor := 1, votesReceived := 1\<rparr>"
  let ?m = "\<lparr>From = 2, To = 1, Type = MessageTypeRequestVoteRes, Ok = True, Term = 1\<rparr>"
  obtain n' where n': "Step (MessageEvent ?m) 10 ?n = Inr n'" "role n' = RoleLeader"
    by (simp add: raft_defs NewNode_def i64_def appendHeartbeats_outbox)
  have "MessageEvent ?m = Tick \<and> peerIDs ?n = [] \<and> nterm n' = nterm ?n + 1 \<or>
    (\<exists>m. MessageEvent ?m = MessageEvent m \<and> Type m = MessageTypeRequestVoteRes \<and> Ok m \<and>
       role ?n = RoleCandidate \<and> nterm n' = nterm ?n \<and>
       int (length (peerIDs ?n) div 2) < votesReceived ?n + 1 \<and>
       outbox n' = outbox ?n @ heartbeats n')"
    by (rule step_becomes_leader [OF _ _ n'(1) _ n'(2)])
       (simp_all add: node_ok_def no_overflow_def in_i64_def NewNode_def)
  with n' show ?thesis by (auto simp: NewNode_def)
qed

text \<open>The log line of a step lists a field exactly when the step changed it, so a step that leaves
  role, term, vote and vote count alone logs nothing.\<close>

theorem step_diffs_faithful:
  "set (stepDiffs a b) =
     {d. d = RoleDiff (dRole a) (dRole b) \<and> dRole a \<noteq> dRole b \<or>
         d = TermDiff (dTerm a) (dTerm b) \<and> dTerm a \<noteq> dTerm b \<or>
         d = VotedForDiff (dVotedFor a) (dVotedFor b) \<and> dVotedFor a \<noteq> dVotedFor b \<or>
         d = VotesReceivedDiff (dVotesReceived a) (dVotesReceived b) \<and>
           dVotesReceived a \<noteq> dVotesReceived b}
   \<and> (stepDiffs (captureDebugState n) (captureDebugState n') = [] \<longleftrightarrow> same_view n n')"
  by (auto simp: stepDiffs_def captureDebugState_def same_view_def)

end
