(* ===== verification/Raft_Cluster.thy ===== *)
theory Raft_Cluster
  imports Raft_Node
begin

text \<open>
  A cluster of Raft processes as \<open>src/cmd/raft/main.go\<close> runs them: every process feeds ticks and
  received messages to its node one at a time (\<open>handleInbox\<close>), posts the node's outbox to the
  peers and clears it; a received message passes the checks of \<open>handleRpc\<close> first. The network
  holds the posted messages as a multiset: it may deliver them in any order, at any time, or
  never, but neither forges nor duplicates them. Processes do not share a clock and a process
  that panics stays down.
\<close>

section \<open>The process loop\<close>

definition handleInbox :: "Event \<Rightarrow> int \<Rightarrow> node \<Rightarrow> panic + (Message list \<times> node)" where
  "handleInbox m tick n = bind_res (Step m tick n) (\<lambda>n1. Inr (Outbox n1, ClearOutbox n1))"

text \<open>
  \<open>handleRpc\<close> with the result of decoding the request body as a parameter: the HTTP status
  and the message put on the inbox channel, if any.
\<close>

definition handleRpc :: "node \<Rightarrow> Message option \<Rightarrow> int \<times> Message option" where
  "handleRpc n decoded =
     (case decoded of
        None \<Rightarrow> (400, None)
      | Some message \<Rightarrow>
          if Type message = MessageTypeOther '''' then (400, None)
          else if To message \<noteq> nid n then (400, None)
          else (200, Some message))"

text \<open>The peers of a process: the numbers \<open>1\<close> to \<open>nodeCount\<close> without its own.\<close>

definition peersOf :: "int \<Rightarrow> int \<Rightarrow> int list" where
  "peersOf nodeCount nodeId = filter (\<lambda>i. i \<noteq> nodeId) [1..nodeCount]"

section \<open>The cluster and its network\<close>

record cluster =
  nodes :: "int \<rightharpoonup> node"
  net :: "Message multiset"

definition initCluster :: "int \<Rightarrow> (int \<Rightarrow> int) \<Rightarrow> (int \<Rightarrow> int) \<Rightarrow> cluster" where
  "initCluster nodeCount electionT heartbeatI =
     \<lparr>nodes = (\<lambda>i. if 1 \<le> i \<and> i \<le> nodeCount
                    then Some (NewNode i (peersOf nodeCount i) (electionT i) (heartbeatI i))
                    else None),
      net = {#}\<rparr>"

text \<open>
  One step of the cluster. The parameter \<open>allow\<close> restricts the deliveries the network makes.
  The bound in \<open>ctick\<close> excludes runs of more than \<open>2 ^ 63\<close> elections, where the term would
  wrap around.
\<close>

inductive cstep :: "(Message \<Rightarrow> node \<Rightarrow> bool) \<Rightarrow> cluster \<Rightarrow> cluster \<Rightarrow> bool"
  for allow :: "Message \<Rightarrow> node \<Rightarrow> bool" where
  ctick: "cstep allow c (c\<lparr>nodes := (nodes c)(i \<mapsto> n'), net := net c + mset ms\<rparr>)"
    if "nodes c i = Some n" "nterm n < max_i64 - 1" "handleInbox Tick tick n = Inr (ms, n')"
| cdeliver: "cstep allow c (c\<lparr>nodes := (nodes c)(i \<mapsto> n'), net := net c - {#m#} + mset ms\<rparr>)"
    if "m \<in># net c" "nodes c i = Some n" "handleRpc n (Some m) = (200, Some m)" "To m = i" "allow m n"
       "handleInbox (MessageEvent m) tick n = Inr (ms, n')"
| ccrash: "cstep allow c (c\<lparr>nodes := (nodes c)(i := None), net := net c - {#m#}\<rparr>)"
    if "m \<in># net c" "nodes c i = Some n" "handleRpc n (Some m) = (200, Some m)" "To m = i"
       "handleInbox (MessageEvent m) tick n = Inl p"
| cdrop: "cstep allow c (c\<lparr>net := net c - {#m#}\<rparr>)"
    if "m \<in># net c"

inductive creach :: "(Message \<Rightarrow> node \<Rightarrow> bool) \<Rightarrow> cluster \<Rightarrow> cluster \<Rightarrow> bool"
  for allow :: "Message \<Rightarrow> node \<Rightarrow> bool" and c0 :: cluster where
  creach_init: "creach allow c0 c0"
| creach_step: "creach allow c0 c \<Longrightarrow> cstep allow c c' \<Longrightarrow> creach allow c0 c'"

text \<open>
  A delivery is \<open>fresh\<close> unless it hands a candidate a granted vote of an earlier term.
  \<open>any_delivery\<close> restricts nothing.
\<close>

definition fresh :: "Message \<Rightarrow> node \<Rightarrow> bool" where
  "fresh m n \<longleftrightarrow>
     (Type m = MessageTypeRequestVoteRes \<and> Ok m \<and> role n = RoleCandidate \<longrightarrow> nterm n \<le> Term m)"

definition any_delivery :: "Message \<Rightarrow> node \<Rightarrow> bool" where
  "any_delivery m n \<longleftrightarrow> True"

definition leads :: "cluster \<Rightarrow> int \<Rightarrow> int \<Rightarrow> bool" where
  "leads c i t \<longleftrightarrow> (\<exists>n. nodes c i = Some n \<and> role n = RoleLeader \<and> nterm n = t)"

section \<open>Executable runs\<close>

text \<open>
  A scheduler that performs a given list of actions, for building concrete runs. An action that
  is not enabled yields \<open>None\<close>.
\<close>

datatype action = DoTick int int | DoDeliver Message int | DoDrop Message

fun cexec :: "(Message \<Rightarrow> node \<Rightarrow> bool) \<Rightarrow> action \<Rightarrow> cluster \<Rightarrow> cluster option" where
  "cexec allow (DoTick i tick) c =
     (case nodes c i of
        None \<Rightarrow> None
      | Some n \<Rightarrow>
          if nterm n < max_i64 - 1
          then (case handleInbox Tick tick n of
                  Inl _ \<Rightarrow> None
                | Inr (ms, n') \<Rightarrow> Some (c\<lparr>nodes := (nodes c)(i \<mapsto> n'), net := net c + mset ms\<rparr>))
          else None)"
| "cexec allow (DoDeliver m tick) c =
     (case nodes c (To m) of
        None \<Rightarrow> None
      | Some n \<Rightarrow>
          if m \<in># net c \<and> handleRpc n (Some m) = (200, Some m) \<and> allow m n
          then (case handleInbox (MessageEvent m) tick n of
                  Inl _ \<Rightarrow> None
                | Inr (ms, n') \<Rightarrow>
                    Some (c\<lparr>nodes := (nodes c)(To m \<mapsto> n'), net := net c - {#m#} + mset ms\<rparr>))
          else None)"
| "cexec allow (DoDrop m) c = (if m \<in># net c then Some (c\<lparr>net := net c - {#m#}\<rparr>) else None)"

fun crun :: "(Message \<Rightarrow> node \<Rightarrow> bool) \<Rightarrow> action list \<Rightarrow> cluster \<Rightarrow> cluster option" where
  "crun allow [] c = Some c"
| "crun allow (a # as) c = (case cexec allow a c of None \<Rightarrow> None | Some c' \<Rightarrow> crun allow as c')"

lemma cexec_cstep: "cexec allow a c = Some c' \<Longrightarrow> cstep allow c c'"
proof (cases a)
  case (DoTick i tick)
  assume "cexec allow a c = Some c'"
  with DoTick show ?thesis by (auto split: option.splits if_splits sum.splits intro: cstep.ctick)
next
  case (DoDeliver m tick)
  assume "cexec allow a c = Some c'"
  with DoDeliver obtain n ms n' where "nodes c (To m) = Some n" "m \<in># net c"
    "handleRpc n (Some m) = (200, Some m)" "allow m n"
    "handleInbox (MessageEvent m) tick n = Inr (ms, n')"
    "c' = c\<lparr>nodes := (nodes c)(To m \<mapsto> n'), net := net c - {#m#} + mset ms\<rparr>"
    by (auto split: option.splits if_splits sum.splits)
  then show ?thesis using cstep.cdeliver [of m c "To m" n allow] by blast
next
  case (DoDrop m)
  assume "cexec allow a c = Some c'"
  with DoDrop show ?thesis by (auto split: if_splits intro: cstep.cdrop)
qed

lemma creach_trans: "creach allow c1 c2 \<Longrightarrow> creach allow c0 c1 \<Longrightarrow> creach allow c0 c2"
  by (induction rule: creach.induct) (auto intro: creach.intros)

lemma crun_creach: "crun allow as c = Some c' \<Longrightarrow> creach allow c c'"
proof (induction "as" arbitrary: c)
  case Nil
  then show ?case by (auto intro: creach.creach_init)
next
  case (Cons a as)
  from Cons.prems obtain c1 where c1: "cexec allow a c = Some c1" "crun allow as c1 = Some c'"
    by (auto split: option.splits)
  from c1(1) have "creach allow c c1"
    by (blast intro: creach.intros cexec_cstep)
  with Cons.IH [OF c1(2)] show ?case by (rule creach_trans)
qed

section \<open>Quorums\<close>

text \<open>
  What an election needs of its quorums: any two of them share a voter. Then, if every voter
  has one vote, at most one candidate is chosen.
\<close>

locale quorums =
  fixes quorum :: "'k \<Rightarrow> 'v set \<Rightarrow> bool"
  assumes quorum_meet: "quorum k A \<Longrightarrow> quorum k B \<Longrightarrow> A \<inter> B \<noteq> {}"
begin

lemma quorum_nonempty: "quorum k A \<Longrightarrow> A \<noteq> {}"
  using quorum_meet [of k A A] by auto

lemma one_winner:
  assumes one_vote: "\<And>v x y. (v, x) \<in> votes \<Longrightarrow> (v, y) \<in> votes \<Longrightarrow> x = y"
    and "quorum k A" "\<And>v. v \<in> A \<Longrightarrow> (v, x) \<in> votes"
    and "quorum k B" "\<And>v. v \<in> B \<Longrightarrow> (v, y) \<in> votes"
  shows "x = y"
  using assms quorum_meet [of k A B] by blast

end

text \<open>
  The quorums of the code, for a cluster of \<open>2 * k + 1\<close> nodes: a candidate needs more than
  \<open>len(peerIDs) / 2 = k\<close> votes.
\<close>

definition winning :: "nat \<Rightarrow> int set \<Rightarrow> bool" where
  "winning k A \<longleftrightarrow> A \<subseteq> {1..2 * int k + 1} \<and> card A > k"

interpretation odd_cluster: quorums winning
proof
  fix k A B
  assume "winning k A" "winning k B"
  then show "A \<inter> B \<noteq> {}"
    by (intro majorities_meet [of "{1..2 * int k + 1}"]) (auto simp: winning_def)
qed

section \<open>Basic facts\<close>

lemma set_peersOf: "set (peersOf N i) = {1..N} - {i}"
  by (auto simp: peersOf_def)

lemma distinct_peersOf: "distinct (peersOf N i)"
  by (simp add: peersOf_def)

lemma length_peersOf: "1 \<le> i \<Longrightarrow> i \<le> N \<Longrightarrow> length (peersOf N i) = nat (N - 1)"
proof -
  assume "1 \<le> i" "i \<le> N"
  then have "card ({1..N} - {i}) = nat (N - 1)" by (simp add: nat_diff_distrib')
  then show ?thesis
    using distinct_card [OF distinct_peersOf, of N i] by (simp add: set_peersOf)
qed

lemma view_outbox [simp]:
  "keeps_identity n (n'\<lparr>outbox := xs\<rparr>) = keeps_identity n n'"
  "same_view n (n'\<lparr>outbox := xs\<rparr>) = same_view n n'"
  "inert (n'\<lparr>outbox := xs\<rparr>) = inert n'"
  "voteRequests (n'\<lparr>outbox := xs\<rparr>) = voteRequests n'"
  by (auto simp: view_defs voteRequests_def fun_eq_iff)

lemma node_move_clear: "node_move n e ms n' \<Longrightarrow> node_move n e ms (n'\<lparr>outbox := xs\<rparr>)"
proof (induction rule: node_move.induct)
  case (idle n n' e) then show ?case by (intro node_move.idle) simp_all
next
  case (answer n n' m r) then show ?case by (intro node_move.answer) simp_all
next
  case (heartbeat n n') then show ?case by (intro node_move.heartbeat) simp_all
next
  case (stepdown n n' m ms) then show ?case by (intro node_move.stepdown) simp_all
next
  case (grant n n' m) then show ?case by (intro node_move.grant) simp_all
next
  case (campaign n n')
  then show ?case
    using node_move.campaign [of n "n'\<lparr>outbox := xs\<rparr>"] by simp
next
  case (solo n n') then show ?case by (intro node_move.solo) simp_all
next
  case (tally n n' m) then show ?case by (intro node_move.tally) simp_all
next
  case (win n n' m) then show ?case by (intro node_move.win) simp_all
qed

lemma handleInbox_move:
  assumes "handleInbox e tick n = Inr (ms, n')" "node_ok n" "no_overflow n" "outbox n = []"
  shows "node_move n e ms n' \<and> outbox n' = []"
proof -
  from assms(1) obtain n1 where n1: "Step e tick n = Inr n1" "ms = outbox n1" "n' = n1\<lparr>outbox := []\<rparr>"
    by (auto simp: handleInbox_def bind_res_Inr_iff Outbox_def ClearOutbox_def)
  with Step_move [OF n1(1) assms(2,3)] assms(4) show ?thesis
    by (auto intro: node_move_clear)
qed

end
