(* ===== verification/Raft_Safety.thy ===== *)
theory Raft_Safety
  imports Raft_Cluster
begin

text \<open>
  Election safety of the cluster of \<open>Raft_Cluster\<close>. The invariant speaks of two history sets:
  \<open>H\<close>, the ballots ever cast (voter, term, candidate), and \<open>K\<close>, the ballots a candidate has
  counted. Both only grow, and neither is read by the code.
\<close>

section \<open>The invariant\<close>

type_synonym ballot = "int \<times> int \<times> int"

definition voteReq :: "int \<Rightarrow> int \<Rightarrow> int \<Rightarrow> Message" where
  "voteReq i t p = \<lparr>From = i, To = p, Type = MessageTypeRequestVoteReq, Ok = True, Term = t\<rparr>"

definition voteYes :: "int \<Rightarrow> int \<Rightarrow> int \<Rightarrow> Message" where
  "voteYes p t i = \<lparr>From = p, To = i, Type = MessageTypeRequestVoteRes, Ok = True, Term = t\<rparr>"

definition tallied :: "ballot set \<Rightarrow> int \<Rightarrow> int \<Rightarrow> int set" where
  "tallied K i t = {p. (p, t, i) \<in> K}"

definition elected :: "nat \<Rightarrow> ballot set \<Rightarrow> ballot set \<Rightarrow> int \<Rightarrow> int \<Rightarrow> bool" where
  "elected k H K i t \<longleftrightarrow> (i, t, i) \<in> H \<and> winning k (insert i (tallied K i t))"

definition cwf :: "nat \<Rightarrow> cluster \<Rightarrow> bool" where
  "cwf k c \<longleftrightarrow>
     (\<forall>i n. nodes c i = Some n \<longrightarrow>
        i \<in> {1..2 * int k + 1} \<and> nid n = i \<and> peerIDs n = peersOf (2 * int k + 1) i \<and>
        outbox n = [] \<and> node_ok n \<and> 0 \<le> nterm n \<and> nterm n < max_i64) \<and>
     (\<forall>m \<in># net c.
        From m \<in> {1..2 * int k + 1} \<and> To m \<in> {1..2 * int k + 1} \<and> From m \<noteq> To m \<and>
        0 \<le> Term m \<and> Term m < max_i64 \<and> (\<forall>s. Type m \<noteq> MessageTypeOther s))"

definition inv_cast :: "nat \<Rightarrow> cluster \<Rightarrow> ballot set \<Rightarrow> bool" where
  "inv_cast k c H \<longleftrightarrow>
     (\<forall>i n. nodes c i = Some n \<longrightarrow> votedFor n \<noteq> 0 \<longrightarrow> (i, nterm n, votedFor n) \<in> H) \<and>
     (\<forall>i n t x. nodes c i = Some n \<longrightarrow> (i, t, x) \<in> H \<longrightarrow>
        t \<le> nterm n \<and> (t = nterm n \<longrightarrow> votedFor n = x)) \<and>
     (\<forall>v t x y. (v, t, x) \<in> H \<longrightarrow> (v, t, y) \<in> H \<longrightarrow> x = y) \<and>
     (\<forall>v t x n. (v, t, x) \<in> H \<longrightarrow> nodes c x = Some n \<longrightarrow> t \<le> nterm n) \<and>
     (\<forall>v t x. (v, t, x) \<in> H \<longrightarrow> v \<in> {1..2 * int k + 1} \<and> x \<noteq> 0)"

definition inv_net :: "cluster \<Rightarrow> ballot set \<Rightarrow> bool" where
  "inv_net c H \<longleftrightarrow> (\<forall>m \<in># net c.
     (Type m = MessageTypeRequestVoteReq \<longrightarrow> Ok m \<and>
        (\<forall>n. nodes c (From m) = Some n \<longrightarrow> Term m \<le> nterm n)) \<and>
     (Type m = MessageTypeRequestVoteRes \<and> Ok m \<longrightarrow> (From m, Term m, To m) \<in> H))"

definition inv_tally :: "cluster \<Rightarrow> ballot set \<Rightarrow> ballot set \<Rightarrow> bool" where
  "inv_tally c H K \<longleftrightarrow>
     K \<subseteq> H \<and> (\<forall>p t. (p, t, p) \<notin> K) \<and>
     (\<forall>p t i. of_bool ((p, t, i) \<in> K) + count (net c) (voteYes p t i) +
        count (net c) (voteReq i t p) \<le> 1) \<and>
     (\<forall>i n. nodes c i = Some n \<longrightarrow> role n \<noteq> RoleFollower \<longrightarrow>
        votesReceived n = 1 + int (card (tallied K i (nterm n))))"

definition inv_lead :: "nat \<Rightarrow> cluster \<Rightarrow> ballot set \<Rightarrow> ballot set \<Rightarrow> bool" where
  "inv_lead k c H K \<longleftrightarrow>
     (\<forall>i n. nodes c i = Some n \<longrightarrow> role n = RoleLeader \<longrightarrow> elected k H K i (nterm n)) \<and>
     (\<forall>m \<in># net c. Type m = MessageTypeAppendEntriesReq \<longrightarrow> elected k H K (From m) (Term m))"

definition cinv :: "nat \<Rightarrow> cluster \<Rightarrow> ballot set \<Rightarrow> ballot set \<Rightarrow> bool" where
  "cinv k c H K \<longleftrightarrow> cwf k c \<and> inv_cast k c H \<and> inv_net c H \<and> inv_tally c H K \<and> inv_lead k c H K"

section \<open>One step, seen from the history\<close>

definition moves :: "cluster \<Rightarrow> int \<Rightarrow> node \<Rightarrow> Event \<Rightarrow> Message list \<Rightarrow> node \<Rightarrow> cluster \<Rightarrow> bool" where
  "moves c i n e ms n' c' \<longleftrightarrow>
     nodes c i = Some n \<and> node_move n e ms n' \<and> outbox n' = [] \<and>
     nodes c' = (nodes c)(i \<mapsto> n') \<and>
     (e = Tick \<and> nterm n < max_i64 - 1 \<and> net c' = net c + mset ms \<or>
      (\<exists>m. e = MessageEvent m \<and> m \<in># net c \<and> To m = i \<and> fresh m n \<and>
           net c' = net c - {#m#} + mset ms))"

definition cast_after :: "int \<Rightarrow> node \<Rightarrow> ballot set \<Rightarrow> ballot set" where
  "cast_after i n' H = (if votedFor n' = 0 then H else insert (i, nterm n', votedFor n') H)"

definition counted_after :: "int \<Rightarrow> node \<Rightarrow> Event \<Rightarrow> node \<Rightarrow> ballot set \<Rightarrow> ballot set" where
  "counted_after i n e n' K =
     (case e of
        MessageEvent m \<Rightarrow>
          if role n = RoleCandidate \<and> votesReceived n' = votesReceived n + 1
          then insert (From m, nterm n, i) K else K
      | _ \<Rightarrow> K)"

lemma H_subset_cast_after: "H \<subseteq> cast_after i n' H"
  by (auto simp: cast_after_def)

lemma K_subset_counted_after: "K \<subseteq> counted_after i n e n' K"
  by (auto simp: counted_after_def split: Event.splits)

lemma elected_mono:
  assumes "elected k H K i t" "H \<subseteq> H'" "K \<subseteq> K'"
    and ids: "\<And>p t j. (p, t, j) \<in> K' \<Longrightarrow> p \<in> {1..2 * int k + 1}"
  shows "elected k H' K' i t"
proof -
  have sub: "insert i (tallied K i t) \<subseteq> insert i (tallied K' i t)"
    using assms(3) by (auto simp: tallied_def)
  have "insert i (tallied K' i t) \<subseteq> {1..2 * int k + 1}"
    using assms(1) ids by (auto simp: elected_def winning_def tallied_def simp del: atLeastAtMost_iff)
  moreover from this have "card (insert i (tallied K i t)) \<le> card (insert i (tallied K' i t))"
    by (meson card_mono finite_atLeastAtMost_int finite_subset sub)
  ultimately show ?thesis using assms(1,2) by (auto simp: elected_def winning_def)
qed

lemma node_move_to:
  assumes "node_move n e ms n'" "r \<in> set ms"
  shows "To r \<in> set (peerIDs n) \<or> (\<exists>m. e = MessageEvent m \<and> To r = From m)"
  using assms
  by (induction rule: node_move.induct) (auto simp: view_defs heartbeats_def voteRequests_def)

lemma node_move_new_vote:
  assumes "node_move n e ms n'" "votedFor n' \<noteq> 0"
  shows "nterm n' = nterm n \<and> votedFor n' = votedFor n \<or> votedFor n' = nid n \<or>
    (\<exists>m. e = MessageEvent m \<and> Type m = MessageTypeRequestVoteReq \<and> nterm n' = Term m \<and>
       votedFor n' = From m)"
  using assms by (induction rule: node_move.induct) (auto simp: view_defs split: if_splits)

lemma node_move_new_messages:
  assumes "node_move n e ms n'" "r \<in> set ms"
  shows "Type r = MessageTypeRequestVoteReq \<Longrightarrow> Ok r"
    and "Type r = MessageTypeRequestVoteRes \<Longrightarrow> Ok r \<Longrightarrow> votedFor n' = To r"
    and "Type r = MessageTypeAppendEntriesReq \<Longrightarrow> role n' = RoleLeader"
    and "Type r \<noteq> MessageTypeOther s"
  using assms
  by (induction rule: node_move.induct) (auto simp: view_defs heartbeats_def voteRequests_def)

lemma node_move_term_bound:
  assumes "node_move n e ms n'"
  shows "nterm n' = nterm n \<or> e = Tick \<and> nterm n' = nterm n + 1 \<or>
    (\<exists>m. e = MessageEvent m \<and> nterm n' = Term m)"
  using assms by (induction rule: node_move.induct) (auto simp: view_defs)

lemma moves_net: "moves c i n e ms n' c' \<Longrightarrow> m \<in># net c' \<Longrightarrow> m \<in># net c \<or> m \<in> set ms"
  by (auto simp: moves_def dest!: in_diffD)

lemma moves_event: "moves c i n (MessageEvent m) ms n' c' \<Longrightarrow> m \<in># net c \<and> To m = i \<and> fresh m n"
  by (auto simp: moves_def)

lemma cwf_moves:
  assumes wf: "cwf k c" and mv: "moves c i n e ms n' c'"
  shows "cwf k c'"
proof -
  from mv have n: "nodes c i = Some n" and nm: "node_move n e ms n'" and "outbox n' = []"
    and nodes': "nodes c' = (nodes c)(i \<mapsto> n')"
    by (auto simp: moves_def)
  from wf n have i: "i \<in> {1..2 * int k + 1}" "nid n = i" "peerIDs n = peersOf (2 * int k + 1) i"
    "node_ok n" "0 \<le> nterm n" "nterm n < max_i64"
    by (auto simp: cwf_def)
  have ev: "m \<in># net c" "To m = i" if "e = MessageEvent m" for m
    using that mv moves_event by blast+
  have tm: "0 \<le> nterm n' \<and> nterm n' < max_i64"
    using node_move_term_bound [OF nm] i mv wf ev by (auto simp: moves_def cwf_def)
  have "node_ok n'" using node_move_ok [OF nm i(4)] i by auto
  moreover have "nid n' = i" "peerIDs n' = peersOf (2 * int k + 1) i"
    using node_move_identity [OF nm] i by (auto simp: keeps_identity_def)
  moreover have "From m \<in> {1..2 * int k + 1} \<and> To m \<in> {1..2 * int k + 1} \<and> From m \<noteq> To m \<and>
        0 \<le> Term m \<and> Term m < max_i64 \<and> (\<forall>s. Type m \<noteq> MessageTypeOther s)" if "m \<in># net c'" for m
    using moves_net [OF mv that]
  proof
    assume "m \<in># net c"
    with wf show ?thesis by (auto simp: cwf_def)
  next
    assume m: "m \<in> set ms"
    have to: "To m \<in> {1..2 * int k + 1} - {i}"
      using node_move_to [OF nm m]
    proof
      assume "To m \<in> set (peerIDs n)"
      with i show ?thesis by (simp add: set_peersOf)
    next
      assume "\<exists>m'. e = MessageEvent m' \<and> To m = From m'"
      with ev wf show ?thesis by (fastforce simp: cwf_def)
    qed
    with i tm node_move_messages [OF nm m] node_move_new_messages(4) [OF nm m] show ?thesis by auto
  qed
  ultimately show ?thesis
    using wf i tm nodes' \<open>outbox n' = []\<close> by (auto simp: cwf_def)
qed


lemma moves_node:
  assumes "cwf k c" "moves c i n e ms n' c'"
  shows "nodes c i = Some n" "node_move n e ms n'" "nodes c' = (nodes c)(i \<mapsto> n')"
    and "nid n = i" "nid n' = i" "node_ok n" "i \<in> {1..2 * int k + 1}" "i \<noteq> 0"
    and "nterm n \<le> nterm n'" "peerIDs n = peersOf (2 * int k + 1) i" "peerIDs n' = peerIDs n"
proof -
  show n: "nodes c i = Some n" and nm: "node_move n e ms n'" and "nodes c' = (nodes c)(i \<mapsto> n')"
    using assms(2) by (auto simp: moves_def)
  show ok: "node_ok n" and id: "nid n = i" and i: "i \<in> {1..2 * int k + 1}"
    and "peerIDs n = peersOf (2 * int k + 1) i"
    using assms(1) n by (auto simp: cwf_def)
  show "i \<noteq> 0" using i by auto
  show "nid n' = i" "peerIDs n' = peerIDs n"
    using node_move_identity [OF nm] id by (auto simp: keeps_identity_def)
  show "nterm n \<le> nterm n'" using node_move_vote [OF nm ok] by simp
qed

lemma moves_sender:
  assumes "cwf k c" "moves c i n (MessageEvent m) ms n' c'"
  shows "m \<in># net c" "To m = i" "From m \<noteq> i" "From m \<noteq> 0" "From m \<in> {1..2 * int k + 1}"
  using assms by (auto simp: cwf_def moves_def)

lemma moves_node_before:
  assumes "cwf k c" "moves c i n e ms n' c'" "nodes c' x = Some y"
  obtains y0 where "nodes c x = Some y0" "nterm y0 \<le> nterm y"
  using moves_node [OF assms(1,2)] assms(3) that by (cases "x = i") auto

lemma inv_castD:
  assumes "inv_cast k c H"
  shows "nodes c i = Some n \<Longrightarrow> votedFor n \<noteq> 0 \<Longrightarrow> (i, nterm n, votedFor n) \<in> H"
    and "nodes c i = Some n \<Longrightarrow> (i, t, x) \<in> H \<Longrightarrow> t \<le> nterm n"
    and "nodes c i = Some n \<Longrightarrow> (i, nterm n, x) \<in> H \<Longrightarrow> votedFor n = x"
    and "(v, t, x) \<in> H \<Longrightarrow> (v, t, y) \<in> H \<Longrightarrow> x = y"
    and "(v, t, x) \<in> H \<Longrightarrow> nodes c x = Some n \<Longrightarrow> t \<le> nterm n"
    and "(v, t, x) \<in> H \<Longrightarrow> v \<in> {1..2 * int k + 1}"
    and "(v, t, x) \<in> H \<Longrightarrow> x \<noteq> 0"
  using assms unfolding inv_cast_def by blast+

lemma inv_netD:
  assumes "inv_net c H" "m \<in># net c"
  shows "Type m = MessageTypeRequestVoteReq \<Longrightarrow> Ok m"
    and "Type m = MessageTypeRequestVoteReq \<Longrightarrow> nodes c (From m) = Some n \<Longrightarrow> Term m \<le> nterm n"
    and "Type m = MessageTypeRequestVoteRes \<Longrightarrow> Ok m \<Longrightarrow> (From m, Term m, To m) \<in> H"
  using assms unfolding inv_net_def by blast+

lemma moves_new_ballot:
  assumes "cwf k c" "inv_cast k c H" "inv_net c H" "moves c i n e ms n' c'" "votedFor n' \<noteq> 0"
    and "nodes c' (votedFor n') = Some x"
  shows "nterm n' \<le> nterm x"
proof -
  note facts = moves_node [OF assms(1,4)]
  obtain x0 where x0: "nodes c (votedFor n') = Some x0" "nterm x0 \<le> nterm x"
    using moves_node_before [OF assms(1,4,6)] .
  show ?thesis
    using node_move_new_vote [OF facts(2) assms(5)]
  proof (elim disjE)
    assume "nterm n' = nterm n \<and> votedFor n' = votedFor n"
    with inv_castD(1) [OF assms(2) facts(1)] assms(5) have "(i, nterm n', votedFor n') \<in> H" by simp
    with inv_castD(5) [OF assms(2)] x0 show ?thesis by fastforce
  next
    assume "votedFor n' = nid n"
    with assms(6) facts(3,4) show ?thesis by simp
  next
    assume "\<exists>m. e = MessageEvent m \<and> Type m = MessageTypeRequestVoteReq \<and> nterm n' = Term m \<and>
       votedFor n' = From m"
    then obtain m where m: "e = MessageEvent m" "Type m = MessageTypeRequestVoteReq"
      "nterm n' = Term m" "votedFor n' = From m" by blast
    with moves_sender(1) [OF assms(1)] assms(4) have "m \<in># net c" by blast
    from inv_netD(2) [OF assms(3) this m(2)] x0 m show ?thesis by fastforce
  qed
qed

lemma cast_after_cases:
  assumes "(v, t, x) \<in> cast_after i n' H"
  obtains (old) "(v, t, x) \<in> H" | (new) "v = i" "t = nterm n'" "x = votedFor n'" "votedFor n' \<noteq> 0"
  using assms by (auto simp: cast_after_def split: if_splits)

lemma inv_cast_moves:
  assumes "cwf k c" "inv_cast k c H" "inv_net c H" "moves c i n e ms n' c'"
  shows "inv_cast k c' (cast_after i n' H)"
proof -
  note facts = moves_node [OF assms(1,4)]
  note inv = inv_castD [OF assms(2)]
  have old: "t \<le> nterm n' \<and> (t = nterm n' \<longrightarrow> votedFor n' = x)" if H: "(i, t, x) \<in> H" for t x
  proof (intro conjI impI)
    show "t \<le> nterm n'" using inv(2) [OF facts(1) H] facts(9) by simp
    assume t: "t = nterm n'"
    with inv(2) [OF facts(1) H] facts(9) have "t = nterm n" by simp
    with inv(3) [OF facts(1)] H inv(7) [OF H] have "votedFor n = x" "votedFor n \<noteq> 0" by auto
    with node_move_vote(2) [OF facts(2,6)] t \<open>t = nterm n\<close> show "votedFor n' = x" by simp
  qed
  show ?thesis
    unfolding inv_cast_def
  proof (intro conjI allI impI)
    fix j m assume j: "nodes c' j = Some m" "votedFor m \<noteq> 0"
    show "(j, nterm m, votedFor m) \<in> cast_after i n' H"
    proof (cases "j = i")
      case True
      with j facts(3) show ?thesis by (auto simp: cast_after_def)
    next
      case False
      with j facts(3) inv(1) [of j m] show ?thesis using H_subset_cast_after by auto
    qed
  next
    fix j m t x assume j: "nodes c' j = Some m" "(j, t, x) \<in> cast_after i n' H"
    have *: "t \<le> nterm m \<and> (t = nterm m \<longrightarrow> votedFor m = x)"
    proof (cases "j = i")
      case True
      with j(1) facts(3) have "m = n'" by simp
      with j(2) True old show ?thesis by (auto elim: cast_after_cases)
    next
      case False
      with j facts(3) have "(j, t, x) \<in> H" "nodes c j = Some m" by (auto elim: cast_after_cases)
      with inv(2,3) show ?thesis by blast
    qed
    from * show "t \<le> nterm m" by simp
    assume "t = nterm m"
    with * show "votedFor m = x" by simp
  next
    fix v t x y assume "(v, t, x) \<in> cast_after i n' H" "(v, t, y) \<in> cast_after i n' H"
    then show "x = y"
      using inv(4) old by (fastforce elim!: cast_after_cases)
  next
    fix v t x m assume xm: "(v, t, x) \<in> cast_after i n' H" "nodes c' x = Some m"
    obtain m0 where m0: "nodes c x = Some m0" "nterm m0 \<le> nterm m"
      using moves_node_before [OF assms(1,4) xm(2)] .
    from xm(1) show "t \<le> nterm m"
    proof (cases rule: cast_after_cases)
      case old
      with inv(5) m0 show ?thesis by fastforce
    next
      case new
      with moves_new_ballot [OF assms] xm(2) show ?thesis by simp
    qed
  next
    fix v t x assume v: "(v, t, x) \<in> cast_after i n' H"
    from v show "v \<in> {1..2 * int k + 1}"
      by (cases rule: cast_after_cases) (use inv(6) facts(7) in blast)+
    from v show "x \<noteq> 0"
      by (cases rule: cast_after_cases) (use inv(7) in auto)
  qed
qed

lemma inv_net_moves:
  assumes "cwf k c" "inv_net c H" "moves c i n e ms n' c'"
  shows "inv_net c' (cast_after i n' H)"
proof -
  note facts = moves_node [OF assms(1,3)]
  have wf': "cwf k c'" by (rule cwf_moves [OF assms(1,3)])
  show ?thesis
    unfolding inv_net_def
  proof (intro ballI conjI allI impI)
    fix m assume m: "m \<in># net c'" and ty: "Type m = MessageTypeRequestVoteReq"
    then consider "m \<in># net c" | "m \<in> set ms" using moves_net [OF assms(3)] by blast
    then show "Ok m"
      by cases (use inv_netD(1) [OF assms(2)] node_move_new_messages(1) [OF facts(2)] ty in blast)+
  next
    fix m x assume m: "m \<in># net c'" and ty: "Type m = MessageTypeRequestVoteReq"
      and x: "nodes c' (From m) = Some x"
    obtain x0 where x0: "nodes c (From m) = Some x0" "nterm x0 \<le> nterm x"
      using moves_node_before [OF assms(1,3) x] .
    from m consider "m \<in># net c" | "m \<in> set ms" using moves_net [OF assms(3)] by blast
    then show "Term m \<le> nterm x"
    proof cases
      case 1
      from inv_netD(2) [OF assms(2) 1 ty] x0 show ?thesis by fastforce
    next
      case 2
      with node_move_messages [OF facts(2)] facts(3,4) x show ?thesis by auto
    qed
  next
    fix m assume m: "m \<in># net c'" and ty: "Type m = MessageTypeRequestVoteRes \<and> Ok m"
    from m consider "m \<in># net c" | "m \<in> set ms" using moves_net [OF assms(3)] by blast
    then show "(From m, Term m, To m) \<in> cast_after i n' H"
    proof cases
      case 1
      with inv_netD(3) [OF assms(2)] ty show ?thesis using H_subset_cast_after by blast
    next
      case 2
      have "votedFor n' = To m" using node_move_new_messages(2) [OF facts(2) 2] ty by blast
      moreover have "To m \<noteq> 0" using wf' m by (auto simp: cwf_def)
      ultimately show ?thesis
        using node_move_messages [OF facts(2) 2] facts(4) by (simp add: cast_after_def)
    qed
  qed
qed


section \<open>Every ballot is counted at most once\<close>

definition quiet :: "Message \<Rightarrow> bool" where
  "quiet r \<longleftrightarrow> Type r \<noteq> MessageTypeRequestVoteReq \<and> \<not> (Type r = MessageTypeRequestVoteRes \<and> Ok r)"

lemma count_quiet:
  assumes "\<And>r. r \<in> set ms \<Longrightarrow> quiet r"
  shows "count (mset ms) (voteYes p t j) = 0" "count (mset ms) (voteReq j t p) = 0"
  using assms by (force simp: quiet_def voteYes_def voteReq_def count_eq_zero_iff)+

lemma heartbeats_quiet: "r \<in> set (heartbeats n) \<Longrightarrow> quiet r"
  by (auto simp: heartbeats_def quiet_def)

lemma inert_quiet: "inert n m r \<Longrightarrow> quiet r"
  by (auto simp: inert_def quiet_def)

lemma message_voteReq:
  "Type m = MessageTypeRequestVoteReq \<Longrightarrow> Ok m \<Longrightarrow> m = voteReq (From m) (Term m) (To m)"
  by (simp add: voteReq_def)

lemma message_voteYes:
  "Type m = MessageTypeRequestVoteRes \<Longrightarrow> Ok m \<Longrightarrow> m = voteYes (From m) (Term m) (To m)"
  by (simp add: voteYes_def)

lemma voteReq_voteYes_simps [simp]:
  "voteReq i t p \<noteq> voteYes p' t' i'" "voteYes p' t' i' \<noteq> voteReq i t p"
  "voteReq i t p = voteReq i' t' p' \<longleftrightarrow> i = i' \<and> t = t' \<and> p = p'"
  "voteYes p t i = voteYes p' t' i' \<longleftrightarrow> i = i' \<and> t = t' \<and> p = p'"
  by (auto simp: voteReq_def voteYes_def)

text \<open>How often ballot \<open>(p, t, j)\<close> exists: counted, granted in flight, or asked for in flight.\<close>

definition copies :: "Message multiset \<Rightarrow> ballot set \<Rightarrow> int \<Rightarrow> int \<Rightarrow> int \<Rightarrow> nat" where
  "copies M K p t j = of_bool ((p, t, j) \<in> K) + count M (voteYes p t j) + count M (voteReq j t p)"

lemma inv_tallyD:
  assumes "inv_tally c H K"
  shows "K \<subseteq> H" "(p, t, p) \<notin> K" "copies (net c) K p t j \<le> 1"
    and "nodes c i = Some n \<Longrightarrow> role n \<noteq> RoleFollower \<Longrightarrow>
      votesReceived n = 1 + int (card (tallied K i (nterm n)))"
  using assms unfolding inv_tally_def copies_def by blast+

lemma copies_quiet:
  assumes quiet: "\<And>r. r \<in> set ms \<Longrightarrow> quiet r" and "M \<subseteq># B" "copies B K p t j \<le> 1"
  shows "copies (M + mset ms) K p t j \<le> 1"
proof -
  have "count (mset ms) (voteYes p t j) = 0" "count (mset ms) (voteReq j t p) = 0"
    using count_quiet [OF quiet] by blast+
  moreover have "count M (voteYes p t j) \<le> count B (voteYes p t j)"
    "count M (voteReq j t p) \<le> count B (voteReq j t p)"
    using assms(2) by (simp_all add: mset_subset_eq_count)
  ultimately show ?thesis
    using assms(3) unfolding copies_def count_union by linarith
qed

lemma copies_grant:
  assumes "voteReq x t0 i \<in># M" "copies M K p t j \<le> 1"
  shows "copies (M - {#voteReq x t0 i#} + {#voteYes i t0 x#}) K p t j \<le> 1"
proof -
  have "1 \<le> count M (voteReq x t0 i)" using assms(1) by (simp add: Suc_leI)
  then have "copies (M - {#voteReq x t0 i#} + {#voteYes i t0 x#}) K p t j = copies M K p t j"
    unfolding copies_def count_union count_diff
    by (cases "x = j \<and> t0 = t \<and> i = p") auto
  with assms(2) show ?thesis by simp
qed

lemma copies_count:
  assumes "voteYes q t0 i \<in># M" "copies M K p t j \<le> 1"
  shows "copies (M - {#voteYes q t0 i#}) (insert (q, t0, i) K) p t j \<le> 1"
proof (cases "q = p \<and> t0 = t \<and> i = j")
  case True
  have one: "1 \<le> count M (voteYes p t j)" using assms(1) True by (simp add: Suc_leI)
  have "copies (M - {#voteYes q t0 i#}) (insert (q, t0, i) K) p t j =
      1 + (count M (voteYes p t j) - 1) + count M (voteReq j t p)"
    using True by (simp add: copies_def)
  moreover have "count M (voteYes p t j) + count M (voteReq j t p) \<le> 1"
    using assms(2) unfolding copies_def by linarith
  ultimately show ?thesis using one by linarith
next
  case False
  then have "copies (M - {#voteYes q t0 i#}) (insert (q, t0, i) K) p t j = copies M K p t j"
    by (auto simp: copies_def)
  with assms(2) show ?thesis by simp
qed

lemma voteRequests_voteReq: "voteRequests n = map (voteReq (nid n) (nterm n)) (peerIDs n)"
  by (simp add: voteRequests_def voteReq_def)

lemma copies_campaign:
  assumes "copies M K p t j \<le> 1" "distinct (peerIDs n)"
    and new: "\<And>q. copies M K q (nterm n) (nid n) = 0"
  shows "copies (M + mset (voteRequests n)) K p t j \<le> 1"
proof -
  have yes: "count (mset (voteRequests n)) (voteYes p t j) = 0"
    by (auto simp: voteRequests_voteReq count_eq_zero_iff)
  have split: "copies (M + mset (voteRequests n)) K p t j =
      copies M K p t j + count (mset (voteRequests n)) (voteReq j t p)"
    unfolding copies_def count_union yes by simp
  show ?thesis
  proof (cases "j = nid n \<and> t = nterm n")
    case True
    have "count (mset (voteRequests n)) (voteReq j t p) \<le> 1"
      unfolding voteRequests_voteReq
      by (rule count_mset_map_le_1) (auto simp: assms(2) inj_on_def)
    with True split new [of p] show ?thesis by simp
  next
    case False
    then have "count (mset (voteRequests n)) (voteReq j t p) = 0"
      by (auto simp: voteRequests_voteReq count_eq_zero_iff)
    with assms(1) split show ?thesis by linarith
  qed
qed

lemma no_copies_of_next_term:
  assumes "inv_cast k c H" "inv_net c H" "inv_tally c H K" "nodes c i = Some n" "nterm n < t"
  shows "copies (net c) K q t i = 0"
proof -
  have ballot: "(q, t, i) \<notin> H" using inv_castD(5) [OF assms(1) _ assms(4)] assms(5) by fastforce
  then have "(q, t, i) \<notin> K" using inv_tallyD(1) [OF assms(3)] by blast
  moreover have "voteYes q t i \<notin># net c"
    using ballot inv_netD(3) [OF assms(2), of "voteYes q t i"] by (auto simp: voteYes_def)
  moreover have "voteReq i t q \<notin># net c"
    using assms(4,5) inv_netD(2) [OF assms(2), of "voteReq i t q"] by (fastforce simp: voteReq_def)
  ultimately show ?thesis by (simp add: copies_def count_eq_zero_iff)
qed


lemma copies_moves:
  assumes "cwf k c" "inv_cast k c H" "inv_net c H" "inv_tally c H K" "moves c i n e ms n' c'"
  shows "copies (net c') (counted_after i n e n' K) p t j \<le> 1"
proof -
  note facts = moves_node [OF assms(1,5)]
  note old = inv_tallyD(3) [OF assms(4)]
  have kept: "copies (net c') K p t j \<le> 1" if "\<And>r. r \<in> set ms \<Longrightarrow> quiet r"
  proof -
    obtain M where "net c' = M + mset ms" "M \<subseteq># net c"
      using assms(5) unfolding moves_def
      by (metis diff_subset_eq_self subset_mset.order_refl)
    with copies_quiet [OF that _ old] show ?thesis by simp
  qed
  have deliver: "m \<in># net c \<and> To m = i \<and> fresh m n \<and> net c' = net c - {#m#} + mset ms"
    if "e = MessageEvent m" for m
    using assms(5) that by (auto simp: moves_def)
  have voted: "copies (net c') (insert (From m, nterm n, i) K) p t j \<le> 1"
    if m: "e = MessageEvent m" "Type m = MessageTypeRequestVoteRes" "Ok m" "Term m \<le> nterm n"
      "role n = RoleCandidate" and ms: "\<And>r. r \<in> set ms \<Longrightarrow> quiet r" for m
  proof -
    have "Term m = nterm n" using deliver [OF m(1)] m by (simp add: fresh_def)
    then have yes: "m = voteYes (From m) (nterm n) i"
      using message_voteYes [OF m(2,3)] deliver [OF m(1)] by simp
    then have "copies (net c - {#m#}) (insert (From m, nterm n, i) K) p t j \<le> 1"
      using copies_count [OF _ old] deliver [OF m(1)] by metis
    then have "copies ((net c - {#m#}) + mset ms) (insert (From m, nterm n, i) K) p t j \<le> 1"
      using ms by (intro copies_quiet [where B = "net c - {#m#}"]) auto
    then show ?thesis using deliver [OF m(1)] by metis
  qed
  from facts(2) show ?thesis
  proof cases
    case idle
    with kept show ?thesis by (auto simp: counted_after_def same_view_def split: Event.splits)
  next
    case (answer m r)
    with kept inert_quiet show ?thesis by (auto simp: counted_after_def same_view_def)
  next
    case heartbeat
    with kept heartbeats_quiet show ?thesis by (auto simp: counted_after_def)
  next
    case (stepdown m)
    have "counted_after i n e n' K = K"
      using stepdown facts(6) by (auto simp: counted_after_def node_ok_def)
    moreover have "\<And>r. r \<in> set ms \<Longrightarrow> quiet r" using stepdown inert_quiet by auto
    ultimately show ?thesis using kept by simp
  next
    case (grant m)
    have "m = voteReq (From m) (Term m) i"
      using message_voteReq [OF grant(4)] inv_netD(1) [OF assms(3)] deliver [OF grant(1)] grant(4)
      by simp
    moreover have "counted_after i n e n' K = K"
      using grant facts(6) by (auto simp: counted_after_def node_ok_def)
    moreover have "ms = [voteYes i (Term m) (From m)]"
      using grant facts(4) by (simp add: voteYes_def)
    ultimately show ?thesis
      using copies_grant [OF _ old] deliver [OF grant(1)] by (metis mset_single_iff_right)
  next
    case campaign
    have "distinct (peerIDs n')" using facts by (simp add: distinct_peersOf)
    moreover have "net c' = net c + mset (voteRequests n')" using campaign assms(5)
      by (auto simp: moves_def)
    moreover have "copies (net c) K q (nterm n') (nid n') = 0" for q
      using no_copies_of_next_term [OF assms(2,3,4) facts(1)] campaign facts(5) by simp
    ultimately have "copies (net c') K p t j \<le> 1"
      using copies_campaign [OF old] by simp
    with campaign show ?thesis by (simp add: counted_after_def)
  next
    case solo
    with kept show ?thesis by (simp add: counted_after_def)
  next
    case (tally m)
    with voted [of m] show ?thesis by (simp add: counted_after_def)
  next
    case (win m)
    with voted [of m] heartbeats_quiet show ?thesis by (simp add: counted_after_def)
  qed
qed

lemma finite_tallied:
  assumes "inv_cast k c H" "K \<subseteq> H"
  shows "tallied K i t \<subseteq> {1..2 * int k + 1}" "finite (tallied K i t)"
proof -
  show *: "tallied K i t \<subseteq> {1..2 * int k + 1}"
    using assms inv_castD(6) by (fastforce simp: tallied_def)
  show "finite (tallied K i t)" by (rule finite_subset [OF *]) simp
qed

lemma counted_ballot_cast:
  assumes "cwf k c" "inv_net c H" "inv_tally c H K" "moves c i n e ms n' c'"
    and "e = MessageEvent m" "role n = RoleCandidate" "votesReceived n' = votesReceived n + 1"
  shows "(From m, nterm n, i) \<in> H" "(From m, nterm n, i) \<notin> K" "From m \<noteq> i"
    "role n' \<in> {RoleCandidate, RoleLeader}" "nterm n' = nterm n"
proof -
  note facts = moves_node [OF assms(1,4)]
  have m: "m \<in># net c" "To m = i" "fresh m n" "From m \<noteq> i"
    using moves_event [OF assms(4) [unfolded assms(5)]]
      moves_sender [OF assms(1) assms(4) [unfolded assms(5)]] by auto
  have ty: "Type m = MessageTypeRequestVoteRes \<and> Ok m \<and> Term m \<le> nterm n \<and>
      role n' \<in> {RoleCandidate, RoleLeader} \<and> nterm n' = nterm n"
    using facts(2,6) assms(5,6,7) by (cases) (auto simp: view_defs node_ok_def)
  with m assms(6) have tm: "Term m = nterm n" by (simp add: fresh_def)
  show "(From m, nterm n, i) \<in> H" using inv_netD(3) [OF assms(2) m(1)] ty tm m(2) by simp
  have "m = voteYes (From m) (nterm n) i" using message_voteYes [of m] ty tm m(2) by simp
  with m(1) have "1 \<le> count (net c) (voteYes (From m) (nterm n) i)" by (simp add: Suc_leI)
  moreover have "of_bool ((From m, nterm n, i) \<in> K) + count (net c) (voteYes (From m) (nterm n) i) \<le> 1"
    using inv_tallyD(3) [OF assms(3), of "From m" "nterm n" i] unfolding copies_def by linarith
  ultimately have "of_bool ((From m, nterm n, i) \<in> K) = (0 :: nat)" by linarith
  then show "(From m, nterm n, i) \<notin> K" by simp
  show "From m \<noteq> i" "role n' \<in> {RoleCandidate, RoleLeader}" "nterm n' = nterm n" using m ty by auto
qed


lemma counted_after_cases:
  obtains (same) "counted_after i n e n' K = K"
      "\<forall>m. e = MessageEvent m \<longrightarrow> \<not> (role n = RoleCandidate \<and> votesReceived n' = votesReceived n + 1)"
  | (count) m where "e = MessageEvent m" "role n = RoleCandidate"
      "votesReceived n' = votesReceived n + 1"
      "counted_after i n e n' K = insert (From m, nterm n, i) K"
  by (cases e) (auto simp: counted_after_def)

lemma counted_subset_cast:
  assumes "cwf k c" "inv_net c H" "inv_tally c H K" "moves c i n e ms n' c'"
  shows "counted_after i n e n' K \<subseteq> H" "(p, t, p) \<notin> counted_after i n e n' K"
proof -
  have "counted_after i n e n' K \<subseteq> H \<and> (p, t, p) \<notin> counted_after i n e n' K"
  proof (cases rule: counted_after_cases [of i n e n' K])
    case same
    with inv_tallyD(1,2) [OF assms(3)] show ?thesis by simp
  next
    case (count m)
    with counted_ballot_cast [OF assms count(1-3)] inv_tallyD(1,2) [OF assms(3)]
    show ?thesis by auto
  qed
  then show "counted_after i n e n' K \<subseteq> H" "(p, t, p) \<notin> counted_after i n e n' K" by simp_all
qed

lemma tallied_after_other:
  "j \<noteq> i \<Longrightarrow> tallied (counted_after i n e n' K) j t = tallied K j t"
  by (cases rule: counted_after_cases [of i n e n' K]) (auto simp: tallied_def)

lemma votes_moves:
  assumes "cwf k c" "inv_cast k c H" "inv_net c H" "inv_tally c H K" "moves c i n e ms n' c'"
    and "role n' \<noteq> RoleFollower"
  shows "votesReceived n' = 1 + int (card (tallied (counted_after i n e n' K) i (nterm n')))"
proof (cases rule: counted_after_cases [of i n e n' K])
  case same
  note facts = moves_node [OF assms(1,5)]
  have "tallied K i (nterm n + 1) = {}"
    using inv_castD(5) [OF assms(2) _ facts(1)] inv_tallyD(1) [OF assms(4)]
    by (fastforce simp: tallied_def)
  with facts(2) assms(6) same inv_tallyD(4) [OF assms(4) facts(1)] show ?thesis
    by cases (auto simp: same_view_def)
next
  case (count m)
  note cb = counted_ballot_cast [OF assms(1,3,4,5) count(1-3)]
  note facts = moves_node [OF assms(1,5)]
  have "tallied (counted_after i n e n' K) i (nterm n') = insert (From m) (tallied K i (nterm n))"
    using count(4) cb(5) by (auto simp: tallied_def)
  moreover have "From m \<notin> tallied K i (nterm n)" using cb(2) by (simp add: tallied_def)
  moreover have "finite (tallied K i (nterm n))"
    using finite_tallied [OF assms(2)] inv_tallyD(1) [OF assms(4)] by blast
  ultimately show ?thesis
    using count(3) inv_tallyD(4) [OF assms(4) facts(1)] count(2) by simp
qed

lemma inv_tally_moves:
  assumes "cwf k c" "inv_cast k c H" "inv_net c H" "inv_tally c H K" "moves c i n e ms n' c'"
  shows "inv_tally c' (cast_after i n' H) (counted_after i n e n' K)"
proof -
  note facts = moves_node [OF assms(1,5)]
  have votes: "votesReceived x = 1 + int (card (tallied (counted_after i n e n' K) j (nterm x)))"
    if x: "nodes c' j = Some x" "role x \<noteq> RoleFollower" for j x
  proof (cases "j = i")
    case True
    with x facts(3) votes_moves [OF assms] show ?thesis by simp
  next
    case False
    with x facts(3) inv_tallyD(4) [OF assms(4), of j x] show ?thesis
      by (simp add: tallied_after_other)
  qed
  show ?thesis
    unfolding inv_tally_def
    using counted_subset_cast [OF assms(1,3,4,5)] H_subset_cast_after [of H i n']
      copies_moves [OF assms] votes
    unfolding copies_def by blast
qed

lemma winning_insert_self:
  assumes "inv_cast k c H" "K \<subseteq> H" "(i, t, i) \<notin> K" "i \<in> {1..2 * int k + 1}"
    and "int k < 1 + int (card (tallied K i t))"
  shows "winning k (insert i (tallied K i t))"
proof -
  have "i \<notin> tallied K i t" using assms(3) by (simp add: tallied_def)
  with finite_tallied [OF assms(1,2), of i t] assms(4,5) show ?thesis
    by (auto simp: winning_def)
qed

lemma inv_lead_moves:
  assumes "cwf k c" "inv_cast k c H" "inv_net c H" "inv_tally c H K" "inv_lead k c H K"
    and "moves c i n e ms n' c'"
  shows "inv_lead k c' (cast_after i n' H) (counted_after i n e n' K)"
proof -
  let ?H = "cast_after i n' H" and ?K = "counted_after i n e n' K"
  note facts = moves_node [OF assms(1,6)]
  have cast': "inv_cast k c' ?H" by (rule inv_cast_moves [OF assms(1,2,3,6)])
  have tally': "inv_tally c' ?H ?K" by (rule inv_tally_moves [OF assms(1-4,6)])
  have mono: "elected k ?H ?K j t" if "elected k H K j t" for j t
    by (rule elected_mono [OF that H_subset_cast_after K_subset_counted_after])
       (use inv_castD(6) [OF cast'] inv_tallyD(1) [OF tally'] in blast)
  have lead: "elected k ?H ?K i (nterm n')" if L: "role n' = RoleLeader"
  proof -
    have ok': "node_ok n'" using node_move_ok [OF facts(2,6)] facts(4,8) by simp
    have "length (peerIDs n') div 2 = k"
      using length_peersOf [of i "2 * int k + 1"] facts by (simp add: nat_mult_distrib)
    with ok' L have "int k < votesReceived n'" by (simp add: node_ok_def)
    moreover have "votesReceived n' = 1 + int (card (tallied ?K i (nterm n')))"
      using inv_tallyD(4) [OF tally'] facts(3) L by simp
    ultimately have "winning k (insert i (tallied ?K i (nterm n')))"
      using winning_insert_self [OF cast' inv_tallyD(1,2) [OF tally'] facts(7)] by simp
    moreover have "(i, nterm n', i) \<in> ?H"
      using ok' L facts(5,8) by (auto simp: cast_after_def node_ok_def)
    ultimately show ?thesis by (simp add: elected_def)
  qed
  show ?thesis
    unfolding inv_lead_def
  proof (intro conjI allI ballI impI)
    fix j x assume "nodes c' j = Some x" "role x = RoleLeader"
    then show "elected k ?H ?K j (nterm x)"
      using lead mono assms(5) facts(3) by (cases "j = i") (auto simp: inv_lead_def)
  next
    fix m assume m: "m \<in># net c'" "Type m = MessageTypeAppendEntriesReq"
    then consider "m \<in># net c" | "m \<in> set ms" using moves_net [OF assms(6)] by blast
    then show "elected k ?H ?K (From m) (Term m)"
    proof cases
      case 1
      with m assms(5) mono show ?thesis by (auto simp: inv_lead_def)
    next
      case 2
      with node_move_messages [OF facts(2) 2] node_move_new_messages(3) [OF facts(2) 2] m(2)
        facts(4) lead show ?thesis by simp
    qed
  qed
qed

lemma cinv_moves:
  assumes "cinv k c H K" "moves c i n e ms n' c'"
  shows "cinv k c' (cast_after i n' H) (counted_after i n e n' K)"
proof -
  from assms(1) have inv: "cwf k c" "inv_cast k c H" "inv_net c H" "inv_tally c H K" "inv_lead k c H K"
    by (simp_all add: cinv_def)
  show ?thesis
    unfolding cinv_def
    using cwf_moves [OF inv(1) assms(2)] inv_cast_moves [OF inv(1-3) assms(2)]
      inv_net_moves [OF inv(1,3) assms(2)] inv_tally_moves [OF inv(1-4) assms(2)]
      inv_lead_moves [OF inv assms(2)]
    by simp
qed

text \<open>Losing a message or a process keeps the invariant: it speaks of what is there only.\<close>

lemma cinv_shrink:
  assumes "cinv k c H K" "nodes c' \<subseteq>\<^sub>m nodes c" "net c' \<subseteq># net c"
  shows "cinv k c' H K"
proof -
  have nodes: "nodes c i = Some n" if "nodes c' i = Some n" for i n
    using assms(2) that by (metis domI map_le_def)
  have net: "m \<in># net c" if "m \<in># net c'" for m
    using assms(3) that by (rule mset_subset_eqD)
  from assms(1) have inv: "cwf k c" "inv_cast k c H" "inv_net c H" "inv_tally c H K" "inv_lead k c H K"
    by (simp_all add: cinv_def)
  have "cwf k c'" using inv(1) nodes net unfolding cwf_def by blast
  moreover have "inv_cast k c' H" using inv(2) nodes unfolding inv_cast_def by blast
  moreover have "inv_net c' H" using inv(3) nodes net unfolding inv_net_def by blast
  moreover have "inv_lead k c' H K" using inv(5) nodes net unfolding inv_lead_def by blast
  moreover have "copies (net c') K p t i \<le> 1" for p t i
    using copies_quiet [of "[]" "net c'" "net c" K p t i] inv_tallyD(3) [OF inv(4)] assms(3) by simp
  then have "inv_tally c' H K"
    using inv(4) nodes unfolding inv_tally_def copies_def by blast
  ultimately show ?thesis by (simp add: cinv_def)
qed

lemma cinv_no_overflow:
  assumes "cinv k c H K" "nodes c i = Some n" "int k < 2 ^ 61"
  shows "no_overflow n"
proof -
  from assms(1) have inv: "cwf k c" "inv_cast k c H" "inv_tally c H K" by (simp_all add: cinv_def)
  from inv(1) assms(2) have n: "0 \<le> nterm n" "nterm n < max_i64" "node_ok n"
    by (auto simp: cwf_def)
  have "card (tallied K i (nterm n)) \<le> card {1..2 * int k + 1}"
    using finite_tallied(1) [OF inv(2) inv_tallyD(1) [OF inv(3)]] by (intro card_mono) auto
  then have "int (card (tallied K i (nterm n))) \<le> 2 * int k + 1" by simp
  moreover have "votesReceived n = 0 \<or> votesReceived n = 1 + int (card (tallied K i (nterm n)))"
    using inv_tallyD(4) [OF inv(3) assms(2)] n(3) by (auto simp: node_ok_def)
  ultimately show "no_overflow n"
    using n(1,2) assms(3) by (auto simp: no_overflow_def in_i64_def)
qed

lemma cstep_cinv:
  assumes "cstep fresh c c'" "cinv k c H K" "int k < 2 ^ 61"
  shows "\<exists>H' K'. cinv k c' H' K'"
proof -
  have node: "node_ok n" "outbox n = []" "no_overflow n" if "nodes c i = Some n" for i n
    using cinv_no_overflow [OF assms(2) that assms(3)] assms(2) that
    by (auto simp: cinv_def cwf_def)
  from assms(1) show ?thesis
  proof cases
    case (ctick i n tick ms n')
    have "moves c i n Tick ms n' c'"
      using handleInbox_move [OF ctick(4)] node [OF ctick(2)] ctick by (auto simp: moves_def)
    with cinv_moves [OF assms(2)] show ?thesis by blast
  next
    case (cdeliver m i n tick ms n')
    have "moves c i n (MessageEvent m) ms n' c'"
      using handleInbox_move [OF cdeliver(7)] node [OF cdeliver(3)] cdeliver
      by (auto simp: moves_def)
    with cinv_moves [OF assms(2)] show ?thesis by blast
  next
    case (ccrash m i n tick p)
    then have "cinv k c' H K"
      by (intro cinv_shrink [OF assms(2)]) (auto simp: map_le_def)
    then show ?thesis by blast
  next
    case (cdrop m)
    then have "cinv k c' H K"
      by (intro cinv_shrink [OF assms(2)]) auto
    then show ?thesis by blast
  qed
qed

lemma cinv_init: "cinv k (initCluster (2 * int k + 1) electionT heartbeatI) {} {}"
  by (auto simp: cinv_def cwf_def inv_cast_def inv_net_def inv_tally_def inv_lead_def
      initCluster_def NewNode_def node_ok_def split: if_splits)

lemma creach_cinv:
  assumes "creach fresh (initCluster (2 * int k + 1) electionT heartbeatI) c" "int k < 2 ^ 61"
  shows "\<exists>H K. cinv k c H K"
  using assms
proof (induction rule: creach.induct)
  case creach_init
  then show ?case using cinv_init by blast
next
  case (creach_step c c')
  then show ?case using cstep_cinv by blast
qed

lemma elected_unique:
  assumes "inv_cast k c H" "K \<subseteq> H" "elected k H K i t" "elected k H K j t"
  shows "i = j"
proof (rule odd_cluster.one_winner)
  show "winning k (insert i (tallied K i t))" "winning k (insert j (tallied K j t))"
    using assms(3,4) by (simp_all add: elected_def)
  show "(v, i) \<in> {(v, x). (v, t, x) \<in> H}" if "v \<in> insert i (tallied K i t)" for v
    using that assms(2,3) by (auto simp: elected_def tallied_def)
  show "(v, j) \<in> {(v, x). (v, t, x) \<in> H}" if "v \<in> insert j (tallied K j t)" for v
    using that assms(2,4) by (auto simp: elected_def tallied_def)
  show "x = y" if "(v, x) \<in> {(v, x). (v, t, x) \<in> H}" "(v, y) \<in> {(v, x). (v, t, x) \<in> H}" for v x y
    using that inv_castD(4) [OF assms(1)] by blast
qed


lemma odd_size:
  fixes N :: int
  assumes "odd N" "0 < N"
  obtains k where "N = 2 * int k + 1"
proof
  show "N = 2 * int (nat (N div 2)) + 1" using assms by simp
qed

lemma odd_creach_cinv:
  assumes "odd N" "0 < N" "N < 2 ^ 62" "creach fresh (initCluster N electionT heartbeatI) c"
  obtains k H K where "cinv k c H K" "N = 2 * int k + 1"
proof -
  obtain k where N: "N = 2 * int k + 1" using odd_size [OF assms(1,2)] .
  with assms(3) have "int k < 2 ^ 61" by simp
  with creach_cinv assms(4) N that show ?thesis by blast
qed

lemma leads_elected: "cinv k c H K \<Longrightarrow> leads c i t \<Longrightarrow> elected k H K i t"
  by (auto simp: leads_def cinv_def inv_lead_def)

lemma cinv_one_leader: "cinv k c H K \<Longrightarrow> leads c i t \<Longrightarrow> leads c j t \<Longrightarrow> i = j"
  by (meson cinv_def elected_unique inv_tallyD(1) leads_elected)

section \<open>Safety of elections\<close>

text \<open>C1: Election safety. In a cluster with an odd number of nodes, whatever order the network delivers
  messages in and whatever it loses, no two nodes ever lead the same term, as long as no candidate
  is handed a granted vote of an earlier term.\<close>

theorem election_safety:
  assumes "odd N" "0 < N" "N < 2 ^ 62"
    and "creach fresh (initCluster N electionT heartbeatI) c"
    and "leads c i t" "leads c j t"
  shows "i = j"
proof -
  obtain k H K where inv: "cinv k c H K" using odd_creach_cinv [OF assms(1-4)] .
  then show ?thesis using assms(5,6) by (rule cinv_one_leader)
qed

definition one_round :: "action list" where
  "one_round = [DoTick 1 10, DoDeliver (voteReq 1 1 2) 10, DoDeliver (voteYes 2 1 1) 10]"

lemmas run_simps =
  raft_defs NewNode_def initCluster_def peersOf_def upto.simps handleInbox_def handleRpc_def
  Outbox_def ClearOutbox_def appendHeartbeats_outbox appendVoteRequests_outbox i64_def
  voteReq_def voteYes_def fresh_def any_delivery_def

lemma one_round_run:
  "\<exists>c. crun fresh one_round (initCluster 3 (\<lambda>_. 10) (\<lambda>_. 2)) = Some c \<and> leads c 1 1"
  by (simp add: one_round_def run_simps leads_def)

theorem election_safety_witness:
  "\<exists>c. creach fresh (initCluster 3 (\<lambda>_. 10) (\<lambda>_. 2)) c \<and> leads c 1 1 \<and> (\<forall>j. leads c j 1 \<longrightarrow> j = 1)"
proof -
  obtain c where c: "crun fresh one_round (initCluster 3 (\<lambda>_. 10) (\<lambda>_. 2)) = Some c" "leads c 1 1"
    using one_round_run by blast
  have r: "creach fresh (initCluster 3 (\<lambda>_. 10) (\<lambda>_. 2)) c" by (rule crun_creach [OF c(1)])
  have "j = 1" if "leads c j 1" for j
    by (rule election_safety [OF _ _ _ r that c(2)]) simp_all
  with r c(2) show ?thesis by blast
qed

lemma fresh_run_handles:
  assumes "odd N" "0 < N" "N < 2 ^ 62"
    and "creach fresh (initCluster N electionT heartbeatI) c"
    and "m \<in># net c" "nodes c (To m) = Some n"
  shows "\<exists>r. handleInbox (MessageEvent m) tick n = Inr r"
proof -
  obtain k H K where inv: "cinv k c H K" using odd_creach_cinv [OF assms(1-4)] .
  then have wf: "cwf k c" "inv_lead k c H K" "inv_cast k c H" "K \<subseteq> H"
    by (auto simp: cinv_def inv_tally_def)
  have n: "node_ok n" using wf(1) assms(6) by (auto simp: cwf_def)
  have "\<not> (Type m = MessageTypeAppendEntriesReq \<and> role n = RoleLeader \<and> Term m = nterm n)"
  proof
    assume *: "Type m = MessageTypeAppendEntriesReq \<and> role n = RoleLeader \<and> Term m = nterm n"
    then have "elected k H K (From m) (nterm n)" "elected k H K (To m) (nterm n)"
      using wf(2) assms(5,6) by (auto simp: inv_lead_def)
    then have "From m = To m" using elected_unique wf(3,4) by blast
    with wf(1) assms(5) show False by (auto simp: cwf_def)
  qed
  moreover have "\<And>s. Type m \<noteq> MessageTypeOther s" using wf(1) assms(5) by (auto simp: cwf_def)
  ultimately have "\<And>p. Step (MessageEvent m) tick n \<noteq> Inl p"
    by (auto simp: step_panics_char [OF n])
  then show ?thesis
    by (cases "Step (MessageEvent m) tick n") (auto simp: handleInbox_def)
qed

text \<open>C11: In the same runs no process ever panics: every message that is in flight can be handled by
  the node it is addressed to, so neither the split-brain check nor any other panic fires.\<close>

theorem no_panic_in_fresh_runs:
  assumes "odd N" "0 < N" "N < 2 ^ 62"
    and "creach fresh (initCluster N electionT heartbeatI) c"
    and "m \<in># net c" "nodes c (To m) = Some n"
  shows "\<exists>r. handleInbox (MessageEvent m) tick n = Inr r"
  using assms by (rule fresh_run_handles)

theorem no_panic_in_fresh_runs_witness:
  "\<exists>c n. creach fresh (initCluster 3 (\<lambda>_. 10) (\<lambda>_. 2)) c \<and> nodes c 2 = Some n \<and>
     (\<exists>r. handleInbox (MessageEvent (voteReq 1 1 2)) 10 n = Inr r)"
proof -
  let ?c0 = "initCluster 3 (\<lambda>_. 10) (\<lambda>_. 2)"
  obtain c n where c: "crun fresh [DoTick 1 10] ?c0 = Some c" "voteReq 1 1 2 \<in># net c" "nodes c 2 = Some n"
    by (simp add: run_simps)
  have r: "creach fresh ?c0 c" by (rule crun_creach [OF c(1)])
  have "\<exists>r. handleInbox (MessageEvent (voteReq 1 1 2)) 10 n = Inr r"
    by (rule no_panic_in_fresh_runs [OF _ _ _ r c(2)]) (use c(3) in \<open>simp_all add: voteReq_def\<close>)
  with r c(3) show ?thesis by blast
qed

section \<open>Where the code falls short\<close>

text \<open>C38: Without that proviso election safety fails in a cluster of three. \<open>handleRequestVoteResponse\<close>
  does not compare the term of a granted vote with its own, so a vote of term 1 that arrives late
  makes node 1 leader of term 2 while node 3 wins term 2 with the real votes.\<close>

definition stale_vote_run :: "action list" where
  "stale_vote_run =
     [DoTick 1 10, DoDeliver (voteReq 1 1 2) 10, DoDeliver (voteReq 1 1 3) 10,
      DoTick 1 20, DoDeliver (voteYes 2 1 1) 20,
      DoTick 3 20, DoDeliver (voteReq 3 2 2) 20, DoDeliver (voteYes 2 2 3) 20]"

theorem stale_vote_elects_two_leaders:
  "\<exists>c. creach any_delivery (initCluster 3 (\<lambda>_. 10) (\<lambda>_. 2)) c \<and> leads c 1 2 \<and> leads c 3 2"
proof -
  have "\<exists>c. crun any_delivery stale_vote_run (initCluster 3 (\<lambda>_. 10) (\<lambda>_. 2)) = Some c \<and>
      leads c 1 2 \<and> leads c 3 2"
    by (simp add: stale_vote_run_def run_simps leads_def)
  then show ?thesis by (blast intro: crun_creach)
qed

text \<open>C39: With an even number of nodes the vote threshold is not a majority. In a cluster of four,
  \<open>len(peerIDs)/2\<close> is 1, two votes elect a leader, and two nodes lead term 1 although every
  delivered vote is of the current term.\<close>

definition even_cluster_run :: "action list" where
  "even_cluster_run =
     [DoTick 1 10, DoTick 2 10,
      DoDeliver (voteReq 1 1 3) 10, DoDeliver (voteYes 3 1 1) 10,
      DoDeliver (voteReq 2 1 4) 10, DoDeliver (voteYes 4 1 2) 10]"

theorem even_cluster_elects_two_leaders:
  "\<exists>c. creach fresh (initCluster 4 (\<lambda>_. 10) (\<lambda>_. 2)) c \<and> leads c 1 1 \<and> leads c 2 1"
proof -
  have "\<exists>c. crun fresh even_cluster_run (initCluster 4 (\<lambda>_. 10) (\<lambda>_. 2)) = Some c \<and>
      leads c 1 1 \<and> leads c 2 1"
    by (simp add: even_cluster_run_def run_simps leads_def)
  then show ?thesis by (blast intro: crun_creach)
qed

end
