(* ===== verification/Raft_Harness.thy ===== *)
theory Raft_Harness
  imports Raft_Safety "HOL-Library.Monad_Syntax"
begin

text \<open>
  The deterministic test cluster of \<open>src/internal/raft_test/cluster.go\<close>. One tick steps every
  node and then delivers messages in rounds until none is left, dropping the ones of disabled nodes
  and those the filter selects. Go iterates over the map of nodes in an unspecified order: every
  iteration takes the order as an argument, and the theorems hold for all orders that list each
  node once (\<open>validOrder\<close>). The filter and the sorter are functions without a state of their own; a test
  may set others between ticks. A panic of a node ends the test and is an \<open>Inl\<close>.
\<close>

section \<open>State\<close>

record testCluster =
  tcNodes :: "int \<rightharpoonup> node"
  disabledNodes :: "int \<Rightarrow> bool"
  dropMessageFunc :: "(Message \<Rightarrow> int \<Rightarrow> bool) option"
  messageSorterFunc :: "(Message \<Rightarrow> Message \<Rightarrow> int) option"

datatype harnessPanic =
    NodePanic panic
  | CountMismatch
  | NoLeaderFound int
  | NilNode

definition NewTestCluster :: "int \<Rightarrow> int list \<Rightarrow> int \<Rightarrow> harnessPanic + testCluster" where
  "NewTestCluster nodeCount electionTimeouts heartbeatI =
     (if nodeCount \<noteq> int (length electionTimeouts) then Inl CountMismatch
      else
        let allNodeIds = [1..nodeCount];
            newNode = (\<lambda>i. NewNode i (filter (\<lambda>nodeId. nodeId \<noteq> i) allNodeIds)
                             (electionTimeouts ! nat (i - 1)) heartbeatI)
        in Inr \<lparr>tcNodes = map_of (map (\<lambda>i. (i, newNode i)) allNodeIds),
                disabledNodes = (\<lambda>_. False), dropMessageFunc = None, messageSorterFunc = None\<rparr>)"

definition SetMessageSorter :: "(Message \<Rightarrow> Message \<Rightarrow> int) \<Rightarrow> testCluster \<Rightarrow> testCluster" where
  "SetMessageSorter sorter tc = tc\<lparr>messageSorterFunc := Some sorter\<rparr>"

definition SetDropMessageFilter :: "(Message \<Rightarrow> int \<Rightarrow> bool) \<Rightarrow> testCluster \<Rightarrow> testCluster" where
  "SetDropMessageFilter f tc = tc\<lparr>dropMessageFunc := Some f\<rparr>"

definition DisableNode :: "int \<Rightarrow> testCluster \<Rightarrow> testCluster" where
  "DisableNode i tc = tc\<lparr>disabledNodes := (disabledNodes tc)(i := True)\<rparr>"

definition EnableNode :: "int \<Rightarrow> testCluster \<Rightarrow> testCluster" where
  "EnableNode i tc = tc\<lparr>disabledNodes := (disabledNodes tc)(i := False)\<rparr>"

text \<open>Reading the state; \<open>ids\<close> is the order of an iteration over the map.\<close>

definition GetRoleNodeCount :: "int list \<Rightarrow> Role \<Rightarrow> testCluster \<Rightarrow> nat" where
  "GetRoleNodeCount ids r tc =
     length (filter (\<lambda>i. case tcNodes tc i of None \<Rightarrow> False | Some n \<Rightarrow> role n = r) ids)"

definition GetTerm :: "int \<Rightarrow> testCluster \<Rightarrow> harnessPanic + int" where
  "GetTerm i tc = (case tcNodes tc i of None \<Rightarrow> Inl NilNode | Some n \<Rightarrow> Inr (nterm n))"

definition GetRole :: "int \<Rightarrow> testCluster \<Rightarrow> Role" where
  "GetRole i tc = (case tcNodes tc i of Some n \<Rightarrow> role n | None \<Rightarrow> RoleOther '''')"

definition NodeCount :: "testCluster \<Rightarrow> nat" where
  "NodeCount tc = card (dom (tcNodes tc))"

fun getLeader :: "int list \<Rightarrow> testCluster \<Rightarrow> int" where
  "getLeader [] tc = 0"
| "getLeader (i # is) tc =
     (case tcNodes tc i of
        Some n \<Rightarrow> if role n = RoleLeader then nid n else getLeader is tc
      | None \<Rightarrow> getLeader is tc)"

section \<open>Delivering messages\<close>

text \<open>
  \<open>slices.SortStableFunc\<close> as insertion sort: every element moves to the left as long as it
  compares less than its neighbour.
\<close>

fun insertRev :: "('a \<Rightarrow> 'a \<Rightarrow> int) \<Rightarrow> 'a \<Rightarrow> 'a list \<Rightarrow> 'a list" where
  "insertRev cmp x [] = [x]"
| "insertRev cmp x (y # ys) = (if cmp x y < 0 then y # insertRev cmp x ys else x # y # ys)"

definition SortStableFunc :: "('a \<Rightarrow> 'a \<Rightarrow> int) \<Rightarrow> 'a list \<Rightarrow> 'a list" where
  "SortStableFunc cmp xs = rev (foldl (\<lambda>acc x. insertRev cmp x acc) [] xs)"

fun takeOutboxes :: "int list \<Rightarrow> (int \<rightharpoonup> node) \<Rightarrow> Message list \<times> (int \<rightharpoonup> node)" where
  "takeOutboxes [] ns = ([], ns)"
| "takeOutboxes (i # is) ns =
     (case ns i of
        None \<Rightarrow> takeOutboxes is ns
      | Some n \<Rightarrow> (case takeOutboxes is (ns(i \<mapsto> ClearOutbox n)) of (ms, ns') \<Rightarrow> (Outbox n @ ms, ns')))"

definition collectOutboxMessages :: "int list \<Rightarrow> testCluster \<Rightarrow> Message list \<times> testCluster" where
  "collectOutboxMessages ids tc =
     (case takeOutboxes ids (tcNodes tc) of (ms, ns) \<Rightarrow>
        (case messageSorterFunc tc of None \<Rightarrow> ms | Some sorter \<Rightarrow> SortStableFunc sorter ms,
         tc\<lparr>tcNodes := ns\<rparr>))"

fun tickNodes :: "int list \<Rightarrow> int \<Rightarrow> testCluster \<Rightarrow> harnessPanic + testCluster" where
  "tickNodes [] tick tc = Inr tc"
| "tickNodes (i # is) tick tc =
     (case tcNodes tc i of
        None \<Rightarrow> tickNodes is tick tc
      | Some n \<Rightarrow>
          (case Step Tick tick n of
             Inl p \<Rightarrow> Inl (NodePanic p)
           | Inr n' \<Rightarrow> tickNodes is tick (tc\<lparr>tcNodes := (tcNodes tc)(i \<mapsto> n')\<rparr>)))"

definition dropped :: "testCluster \<Rightarrow> int \<Rightarrow> Message \<Rightarrow> bool" where
  "dropped tc tick message =
     (if disabledNodes tc (From message) \<or> disabledNodes tc (To message) then True
      else case dropMessageFunc tc of None \<Rightarrow> False | Some f \<Rightarrow> f message tick)"

definition deliver :: "int \<Rightarrow> Message \<Rightarrow> testCluster \<Rightarrow> harnessPanic + testCluster" where
  "deliver tick message tc =
     (if dropped tc tick message then Inr tc
      else case tcNodes tc (To message) of
        None \<Rightarrow> Inr tc
      | Some n \<Rightarrow>
          (case Step (MessageEvent message) tick n of
             Inl p \<Rightarrow> Inl (NodePanic p)
           | Inr n' \<Rightarrow> Inr (tc\<lparr>tcNodes := (tcNodes tc)(To message \<mapsto> n')\<rparr>)))"

fun deliverAll :: "int \<Rightarrow> Message list \<Rightarrow> testCluster \<Rightarrow> harnessPanic + testCluster" where
  "deliverAll tick [] tc = Inr tc"
| "deliverAll tick (m # ms) tc = bind_res (deliver tick m tc) (deliverAll tick ms)"

text \<open>
  The loop of \<open>Tick\<close>. The order of the \<open>k\<close>-th collection is \<open>orders k\<close>; a loop that goes on
  for ever has the value \<open>None\<close>.
\<close>

partial_function (option) drain ::
  "(nat \<Rightarrow> int list) \<Rightarrow> int \<Rightarrow> nat \<Rightarrow> Message list \<Rightarrow> testCluster \<Rightarrow> (harnessPanic + testCluster) option" where
  "drain orders tick k messages tc =
     (if length messages > 0 then
        (case deliverAll tick messages tc of
           Inl p \<Rightarrow> Some (Inl p)
         | Inr tc1 \<Rightarrow>
             (case collectOutboxMessages (orders k) tc1 of (ms, tc2) \<Rightarrow> drain orders tick (Suc k) ms tc2))
      else Some (Inr tc))"

declare drain.simps [code]

definition clusterTick ::
  "(nat \<Rightarrow> int list) \<Rightarrow> int \<Rightarrow> testCluster \<Rightarrow> (harnessPanic + testCluster) option" where
  "clusterTick orders tick tc =
     (case tickNodes (orders 0) tick tc of
        Inl p \<Rightarrow> Some (Inl p)
      | Inr tc1 \<Rightarrow>
          (case collectOutboxMessages (orders 1) tc1 of (ms, tc2) \<Rightarrow> drain orders tick 2 ms tc2))"

text \<open>
  The loop of \<open>WaitForLeader\<close> from a given tick on; \<open>sched\<close> gives the orders of the iterations
  at each tick and \<open>look\<close> that of \<open>getLeader\<close>. The comparison with \<open>timeout\<close> bounds the counter.
\<close>

function waitFrom ::
  "(int \<Rightarrow> nat \<Rightarrow> int list) \<Rightarrow> (int \<Rightarrow> int list) \<Rightarrow> int \<Rightarrow> int \<Rightarrow> testCluster \<Rightarrow>
     (harnessPanic + (int \<times> int \<times> testCluster)) option" where
  "waitFrom sched look timeout tick tc =
     (case clusterTick (sched tick) tick tc of
        None \<Rightarrow> None
      | Some (Inl p) \<Rightarrow> Some (Inl p)
      | Some (Inr tc1) \<Rightarrow>
          (let leaderID = getLeader (look tick) tc1
           in if leaderID \<noteq> 0 then Some (Inr (leaderID, tick, tc1))
              else if tick + 1 \<ge> timeout then Some (Inl (NoLeaderFound timeout))
              else waitFrom sched look timeout (tick + 1) tc1))"
  by auto
termination
  by (relation "measure (\<lambda>(_, _, timeout, tick, _). nat (timeout - tick))") auto

declare waitFrom.simps [simp del]

definition WaitForLeader ::
  "(int \<Rightarrow> nat \<Rightarrow> int list) \<Rightarrow> (int \<Rightarrow> int list) \<Rightarrow> int \<Rightarrow> testCluster \<Rightarrow>
     (harnessPanic + (int \<times> int \<times> testCluster)) option" where
  "WaitForLeader sched look timeout tc = waitFrom sched look timeout 0 tc"

definition validOrder :: "int list \<Rightarrow> testCluster \<Rightarrow> bool" where
  "validOrder ids tc \<longleftrightarrow> distinct ids \<and> set ids = dom (tcNodes tc)"

section \<open>Outboxes\<close>

text \<open>
  A step only appends to the outbox: it acts as on the empty outbox, and what it writes goes
  behind what is there. This relates \<open>Step\<close> to \<open>handleInbox\<close>, which starts from an empty outbox.
\<close>

definition withOutbox :: "Message list \<Rightarrow> panic + node \<Rightarrow> panic + node" where
  "withOutbox xs r = (case r of Inl p \<Rightarrow> Inl p | Inr n \<Rightarrow> Inr (n\<lparr>outbox := xs @ outbox n\<rparr>))"

lemma withOutbox_simps [simp]:
  "withOutbox xs (Inl p) = Inl p"
  "withOutbox xs (Inr n) = Inr (n\<lparr>outbox := xs @ outbox n\<rparr>)"
  by (simp_all add: withOutbox_def)

lemma broadcastHeartbeats_frame:
  "broadcastHeartbeats tick (n\<lparr>outbox := xs @ outbox n\<rparr>) = withOutbox xs (broadcastHeartbeats tick n)"
  by (simp add: broadcastHeartbeats_def appendHeartbeats_outbox)

lemma handler_frames:
  "handleTick tick (n\<lparr>outbox := xs\<rparr>) = withOutbox xs (handleTick tick (n\<lparr>outbox := []\<rparr>))"
  "handleRequestVoteRequest m (n\<lparr>outbox := xs\<rparr>) = withOutbox xs (handleRequestVoteRequest m (n\<lparr>outbox := []\<rparr>))"
  "handleRequestVoteResponse m tick (n\<lparr>outbox := xs\<rparr>) =
     withOutbox xs (handleRequestVoteResponse m tick (n\<lparr>outbox := []\<rparr>))"
  "handleAppendEntriesResponse m (n\<lparr>outbox := xs\<rparr>) =
     withOutbox xs (handleAppendEntriesResponse m (n\<lparr>outbox := []\<rparr>))"
  "handleAppendEntriesRequest m tick (n\<lparr>outbox := xs\<rparr>) =
     withOutbox xs (handleAppendEntriesRequest m tick (n\<lparr>outbox := []\<rparr>))"
  by (simp_all add: raft_defs Let_def appendHeartbeats_outbox appendVoteRequests_outbox)

lemma Step_frame: "Step e tick (n\<lparr>outbox := xs\<rparr>) = withOutbox xs (Step e tick (n\<lparr>outbox := []\<rparr>))"
  by (cases e) (simp_all add: Step_def handler_frames [where n = n and xs = xs])

lemma Step_handleInbox:
  "Step e tick n = Inr n' \<longleftrightarrow>
     (\<exists>ms. handleInbox e tick (ClearOutbox n) = Inr (ms, ClearOutbox n') \<and> outbox n' = outbox n @ ms)"
proof (cases "Step e tick (n\<lparr>outbox := []\<rparr>)")
  case (Inl p)
  then show ?thesis
    using Step_frame [of e tick "outbox n" n] by (simp add: handleInbox_def ClearOutbox_def)
next
  case (Inr n0)
  have "Step e tick n = Inr (n0\<lparr>outbox := outbox n @ outbox n0\<rparr>)"
    using Step_frame [of e tick "outbox n" n] Inr by simp
  moreover have "n' = n0\<lparr>outbox := outbox n @ outbox n0\<rparr> \<longleftrightarrow>
      n0\<lparr>outbox := []\<rparr> = n'\<lparr>outbox := []\<rparr> \<and> outbox n' = outbox n @ outbox n0"
    by (cases n0; cases n') auto
  ultimately show ?thesis
    using Inr by (auto simp: handleInbox_def ClearOutbox_def Outbox_def)
qed

lemma Step_panic_handleInbox: "Step e tick n = Inl p \<longleftrightarrow> handleInbox e tick (ClearOutbox n) = Inl p"
  using Step_frame [of e tick "outbox n" n]
  by (cases "Step e tick (n\<lparr>outbox := []\<rparr>)") (simp_all add: handleInbox_def ClearOutbox_def)

section \<open>The loop of a tick ends\<close>

text \<open>
  An answer is closer to the end of the exchange than the message it answers: a vote request
  leads to a vote, a vote to heartbeats, a heartbeat to its answer, and that to nothing.
\<close>

fun rank :: "MessageType \<Rightarrow> nat" where
  "rank MessageTypeRequestVoteReq = 4"
| "rank MessageTypeRequestVoteRes = 3"
| "rank MessageTypeAppendEntriesReq = 2"
| "rank MessageTypeAppendEntriesRes = 1"
| "rank (MessageTypeOther s) = 1"

lemma rank_bounds [simp]: "rank t \<noteq> 0" "rank t \<le> 4"
  by (cases t; simp)+

lemma rank_zero_Nil: "\<forall>m \<in> set ms. rank (Type m) \<le> 0 \<Longrightarrow> ms = []"
  by (cases ms) auto

lemma handleInbox_rank:
  assumes "handleInbox (MessageEvent m) tick (ClearOutbox n) = Inr (ms, n')" "r \<in> set ms"
  shows "rank (Type r) < rank (Type m)"
  using assms
  by (cases "Type m")
     (auto simp: handleInbox_def bind_res_Inr_iff raft_defs Let_def ClearOutbox_def Outbox_def
        appendHeartbeats_outbox split: if_splits)

lemma mset_insertRev: "mset (insertRev cmp x ys) = add_mset x (mset ys)"
  by (induction ys) auto

lemma mset_SortStableFunc [simp]: "mset (SortStableFunc cmp xs) = mset xs"
proof -
  have "mset (foldl (\<lambda>acc x. insertRev cmp x acc) acc xs) = mset acc + mset xs" for acc
    by (induction xs arbitrary: acc) (simp_all add: mset_insertRev)
  then show ?thesis by (simp add: SortStableFunc_def)
qed

definition outboxOf :: "(int \<rightharpoonup> node) \<Rightarrow> int \<Rightarrow> Message list" where
  "outboxOf ns i = (case ns i of None \<Rightarrow> [] | Some n \<Rightarrow> outbox n)"

lemma set_outboxOf: "r \<in> set (outboxOf ns i) \<longleftrightarrow> (\<exists>n. ns i = Some n \<and> r \<in> set (outbox n))"
  by (cases "ns i") (auto simp: outboxOf_def)

lemma takeOutboxes_eq:
  "distinct ids \<Longrightarrow> takeOutboxes ids ns =
     (concat (map (outboxOf ns) ids), \<lambda>i. if i \<in> set ids then map_option ClearOutbox (ns i) else ns i)"
proof (induction ids arbitrary: ns)
  case (Cons i ids)
  show ?case
  proof (cases "ns i")
    case None
    with Cons show ?thesis by (auto simp: outboxOf_def fun_eq_iff)
  next
    case (Some n)
    have "map (outboxOf (ns(i \<mapsto> ClearOutbox n))) ids = map (outboxOf ns) ids"
      using Cons.prems by (auto simp: outboxOf_def)
    then have "concat (map (outboxOf (ns(i \<mapsto> ClearOutbox n))) ids) = concat (map (outboxOf ns) ids)"
      by (rule arg_cong)
    moreover have "outboxOf ns i = outbox n" using Some by (simp add: outboxOf_def)
    ultimately show ?thesis using Cons Some by (auto simp: Outbox_def fun_eq_iff)
  qed
qed (simp add: fun_eq_iff)

definition cleared :: "testCluster \<Rightarrow> testCluster" where
  "cleared tc = tc\<lparr>tcNodes := \<lambda>i. map_option ClearOutbox (tcNodes tc i)\<rparr>"

lemma collect_cleared:
  assumes "validOrder ids tc"
  shows "\<exists>ms. collectOutboxMessages ids tc = (ms, cleared tc) \<and>
    mset ms = mset (concat (map (outboxOf (tcNodes tc)) ids))"
proof -
  have "(if i \<in> set ids then map_option ClearOutbox (tcNodes tc i) else tcNodes tc i) =
      map_option ClearOutbox (tcNodes tc i)" for i
    using assms by (cases "tcNodes tc i") (auto simp: validOrder_def)
  then show ?thesis
    using assms
    by (auto simp: validOrder_def collectOutboxMessages_def takeOutboxes_eq cleared_def split: option.splits)
qed

text \<open>What a delivery keeps: the settings, the set of nodes, and a bound on the ranks in the outboxes.\<close>

definition sameSettings :: "testCluster \<Rightarrow> testCluster \<Rightarrow> bool" where
  "sameSettings tc tc' \<longleftrightarrow> dom (tcNodes tc') = dom (tcNodes tc) \<and> disabledNodes tc' = disabledNodes tc \<and>
     dropMessageFunc tc' = dropMessageFunc tc \<and> messageSorterFunc tc' = messageSorterFunc tc"

definition lowOutboxes :: "nat \<Rightarrow> testCluster \<Rightarrow> bool" where
  "lowOutboxes b tc \<longleftrightarrow>
     (\<forall>i n r. tcNodes tc i = Some n \<longrightarrow> r \<in> set (outbox n) \<longrightarrow> rank (Type r) < b)"

lemma sameSettings_refl [simp]: "sameSettings tc tc"
  and sameSettings_trans: "sameSettings tc tc1 \<Longrightarrow> sameSettings tc1 tc2 \<Longrightarrow> sameSettings tc tc2"
  and sameSettings_order: "sameSettings tc tc' \<Longrightarrow> validOrder ids tc' = validOrder ids tc"
  by (auto simp: sameSettings_def validOrder_def)

lemma sameSettings_put: "tcNodes tc i = Some n \<Longrightarrow> sameSettings tc (tc\<lparr>tcNodes := (tcNodes tc)(i \<mapsto> n')\<rparr>)"
  by (auto simp: sameSettings_def)

lemma sameSettings_cleared: "sameSettings tc (cleared tc)"
  by (auto simp: sameSettings_def cleared_def dom_def)

lemma lowOutboxes_cleared: "lowOutboxes b (cleared tc)"
  by (auto simp: lowOutboxes_def cleared_def ClearOutbox_def)

lemma deliver_cases:
  assumes "deliver tick m tc = Inr tc'"
  obtains "tc' = tc"
  | n n' where "tcNodes tc (To m) = Some n" "Step (MessageEvent m) tick n = Inr n'"
      "tc' = tc\<lparr>tcNodes := (tcNodes tc)(To m \<mapsto> n')\<rparr>"
proof (cases "dropped tc tick m \<or> tcNodes tc (To m) = None")
  case True
  then have "deliver tick m tc = Inr tc" by (auto simp: deliver_def)
  then show thesis using assms that(1) by simp
next
  case False
  then obtain n where n: "tcNodes tc (To m) = Some n" "\<not> dropped tc tick m" by blast
  show thesis
  proof (cases "Step (MessageEvent m) tick n")
    case (Inl p)
    with n assms show thesis by (simp add: deliver_def)
  next
    case (Inr n')
    with n assms that(2) [OF n(1) Inr] show thesis by (simp add: deliver_def)
  qed
qed

lemma deliver_keeps:
  assumes "deliver tick m tc = Inr tc'"
  shows "sameSettings tc tc'" "lowOutboxes b tc \<Longrightarrow> rank (Type m) \<le> b \<Longrightarrow> lowOutboxes b tc'"
proof -
  show "sameSettings tc tc'"
    using assms by (cases rule: deliver_cases) (simp_all add: sameSettings_put)
  assume low: "lowOutboxes b tc" "rank (Type m) \<le> b"
  from assms show "lowOutboxes b tc'"
  proof (cases rule: deliver_cases)
    case (2 n n')
    obtain ms where ms: "handleInbox (MessageEvent m) tick (ClearOutbox n) = Inr (ms, ClearOutbox n')"
      "outbox n' = outbox n @ ms" using 2(2) Step_handleInbox by blast
    have "rank (Type r) < b" if "r \<in> set (outbox n')" for r
      using that low 2(1) handleInbox_rank [OF ms(1), of r] ms(2) by (fastforce simp: lowOutboxes_def)
    then show ?thesis using low(1) 2(3) by (simp add: lowOutboxes_def)
  qed (simp add: low)
qed

lemma deliverAll_keeps:
  assumes "deliverAll tick ms tc = Inr tc'"
  shows "sameSettings tc tc'" "lowOutboxes b tc \<Longrightarrow> \<forall>m \<in> set ms. rank (Type m) \<le> b \<Longrightarrow> lowOutboxes b tc'"
  using assms
proof (induction ms arbitrary: tc)
  case (Cons m ms)
  {
    case 1
    then obtain tc1 where "deliver tick m tc = Inr tc1" "deliverAll tick ms tc1 = Inr tc'"
      by (auto simp: bind_res_Inr_iff)
    then show ?case using Cons.IH(1) deliver_keeps(1) sameSettings_trans by blast
  next
    case 2
    then obtain tc1 where tc1: "deliver tick m tc = Inr tc1" "deliverAll tick ms tc1 = Inr tc'"
      by (auto simp: bind_res_Inr_iff)
    have "lowOutboxes b tc1" using 2 deliver_keeps(2) [OF tc1(1)] by simp
    then show ?case using 2 Cons.IH(2) tc1(2) by simp
  }
qed simp_all

lemma tickNodes_keeps: "tickNodes ids tick tc = Inr tc' \<Longrightarrow> sameSettings tc tc'"
proof (induction ids arbitrary: tc)
  case (Cons i ids)
  then show ?case
    by (auto split: option.splits sum.splits intro: sameSettings_trans sameSettings_put)
qed simp

lemma drain_ends:
  assumes "\<And>k. validOrder (orders k) tc" "\<forall>m \<in> set ms. rank (Type m) \<le> b" "lowOutboxes 0 tc"
  shows "\<exists>r. drain orders tick k ms tc = Some r \<and> (\<forall>tc'. r = Inr tc' \<longrightarrow> sameSettings tc tc')"
  using assms
proof (induction b arbitrary: k ms tc)
  case 0
  then have "ms = []" by (intro rank_zero_Nil)
  then show ?case by (simp add: drain.simps)
next
  case (Suc b)
  show ?case
  proof (cases "ms = [] \<or> (\<exists>p. deliverAll tick ms tc = Inl p)")
    case True
    then show ?thesis by (auto simp: drain.simps [of orders tick k ms tc])
  next
    case False
    then obtain tc1 where tc1: "deliverAll tick ms tc = Inr tc1" "ms \<noteq> []"
      by (cases "deliverAll tick ms tc") auto
    note keeps = deliverAll_keeps [OF tc1(1)]
    have low: "lowOutboxes (Suc b) tc1"
      using keeps(2) Suc.prems(2,3) by (auto simp: lowOutboxes_def)
    obtain ms' where ms': "collectOutboxMessages (orders k) tc1 = (ms', cleared tc1)"
      "mset ms' = mset (concat (map (outboxOf (tcNodes tc1)) (orders k)))"
      using collect_cleared [of "orders k" tc1] Suc.prems(1) sameSettings_order [OF keeps(1)] by auto
    have "\<forall>m \<in> set ms'. rank (Type m) \<le> b"
      using low mset_eq_setD [OF ms'(2)] by (auto simp: lowOutboxes_def set_outboxOf less_Suc_eq_le)
    moreover have "validOrder (orders j) (cleared tc1)" for j
      using Suc.prems(1) sameSettings_order keeps(1) sameSettings_cleared by blast
    ultimately obtain r where "drain orders tick (Suc k) ms' (cleared tc1) = Some r"
      "\<And>tc'. r = Inr tc' \<Longrightarrow> sameSettings (cleared tc1) tc'"
      using Suc.IH lowOutboxes_cleared by blast
    moreover have "sameSettings tc (cleared tc1)"
      using keeps(1) sameSettings_cleared sameSettings_trans by blast
    ultimately show ?thesis
      using tc1 ms'(1) sameSettings_trans by (simp add: drain.simps [of orders tick k ms tc])
  qed
qed

lemma clusterTick_returns:
  assumes "\<And>k. validOrder (orders k) tc"
  shows "\<exists>r. clusterTick orders tick tc = Some r \<and> (\<forall>tc'. r = Inr tc' \<longrightarrow> sameSettings tc tc')"
proof (cases "tickNodes (orders 0) tick tc")
  case (Inl p)
  then show ?thesis by (simp add: clusterTick_def)
next
  case (Inr tc1)
  then have same: "sameSettings tc tc1" by (rule tickNodes_keeps)
  then have ok: "validOrder (orders k) tc1" for k by (simp add: assms sameSettings_order [of tc])
  then have ok': "validOrder (orders k) (cleared tc1)" for k
    by (simp add: sameSettings_order [OF sameSettings_cleared])
  obtain ms where ms: "collectOutboxMessages (orders 1) tc1 = (ms, cleared tc1)"
    using collect_cleared [OF ok] by blast
  obtain r where r: "drain orders tick 2 ms (cleared tc1) = Some r"
      "\<And>tc'. r = Inr tc' \<Longrightarrow> sameSettings (cleared tc1) tc'"
    using drain_ends [of orders "cleared tc1" ms 4 tick 2] ok' lowOutboxes_cleared by auto
  have "sameSettings tc tc'" if "r = Inr tc'" for tc'
    using r(2) [OF that] same sameSettings_cleared sameSettings_trans by blast
  then show ?thesis using Inr ms r by (simp add: clusterTick_def)
qed

lemma waitFrom_returns:
  assumes "\<And>t k. validOrder (sched t k) tc"
  shows "\<exists>r. waitFrom sched look timeout tick tc = Some r"
  using assms
proof (induction sched look timeout tick tc rule: waitFrom.induct)
  case (1 sched look timeout tick tc)
  obtain r where r: "clusterTick (sched tick) tick tc = Some r" "\<And>tc'. r = Inr tc' \<Longrightarrow> sameSettings tc tc'"
    using clusterTick_returns [of "sched tick" tc tick] 1(2) by blast
  show ?case
  proof (cases r)
    case (Inl p)
    then show ?thesis using r(1) by (simp add: waitFrom.simps [of _ _ _ tick])
  next
    case (Inr tc1)
    have "\<exists>r. waitFrom sched look timeout (tick + 1) tc1 = Some r"
      if "getLeader (look tick) tc1 = 0" "\<not> timeout \<le> tick + 1"
      using 1(1) [OF r(1) Inr refl] that 1(2) sameSettings_order [OF r(2) [OF Inr]] by auto
    then show ?thesis using r(1) Inr by (auto simp: waitFrom.simps [of _ _ _ tick] Let_def)
  qed
qed

end
