(* ===== verification/Raft_Harness_Sim.thy ===== *)
theory Raft_Harness_Sim
  imports Raft_Harness
begin

text \<open>
  The test cluster of \<open>Raft_Harness\<close> as a scheduler of the cluster of \<open>Raft_Cluster\<close>: its messages and
  the outboxes are the network, and every delivery, loss and tick is a step there. The deliveries
  it makes are all \<open>fresh\<close>, because a tick delivers every message before the next one, so the
  safety of elections carries over.
\<close>

section \<open>An invariant of the delivery loop\<close>

text \<open>
  What a property of the pending messages and the cluster has to satisfy so that the loop keeps
  it and does not panic.
\<close>

locale drain_invariant =
  fixes P :: "Message list \<Rightarrow> testCluster \<Rightarrow> bool" and tick :: int
  assumes deliver_inv: "P (m # ms) tc \<Longrightarrow> \<exists>tc'. deliver tick m tc = Inr tc' \<and> P ms tc'"
    and collect_inv: "P [] tc \<Longrightarrow> validOrder ids tc \<Longrightarrow>
      collectOutboxMessages ids tc = (ms, cleared tc) \<Longrightarrow> P ms (cleared tc)"
begin

lemma deliverAll_inv: "P ms tc \<Longrightarrow> \<exists>tc'. deliverAll tick ms tc = Inr tc' \<and> P [] tc'"
proof (induction ms arbitrary: tc)
  case (Cons m ms)
  obtain tc1 where "deliver tick m tc = Inr tc1" "P ms tc1" using deliver_inv [OF Cons.prems] by blast
  with Cons.IH show ?case by simp
qed simp

lemma drain_inv:
  assumes "\<And>k. validOrder (orders k) tc" "\<forall>m \<in> set ms. rank (Type m) \<le> b" "lowOutboxes 0 tc" "P ms tc"
  shows "\<exists>tc'. drain orders tick k ms tc = Some (Inr tc') \<and> P [] tc' \<and> lowOutboxes 0 tc' \<and> sameSettings tc tc'"
  using assms
proof (induction b arbitrary: k ms tc)
  case 0
  have "ms = []" using 0(2) by (rule rank_zero_Nil)
  then show ?case using 0 by (simp add: drain.simps)
next
  case (Suc b)
  show ?case
  proof (cases "ms = []")
    case True
    then show ?thesis using Suc.prems by (simp add: drain.simps)
  next
    case False
    obtain tc1 where tc1: "deliverAll tick ms tc = Inr tc1" "P [] tc1"
      using deliverAll_inv [OF Suc.prems(4)] by blast
    note keeps = deliverAll_keeps [OF tc1(1)]
    have ok: "validOrder (orders j) tc1" for j by (simp add: Suc.prems(1) sameSettings_order [OF keeps(1)])
    then have ok': "validOrder (orders j) (cleared tc1)" for j
      by (simp add: sameSettings_order [OF sameSettings_cleared])
    obtain ms' where ms': "collectOutboxMessages (orders k) tc1 = (ms', cleared tc1)"
      "mset ms' = mset (concat (map (outboxOf (tcNodes tc1)) (orders k)))"
      using collect_cleared [OF ok] by blast
    have "lowOutboxes (Suc b) tc1" using keeps(2) Suc.prems(2,3) by (auto simp: lowOutboxes_def)
    then have "\<forall>m \<in> set ms'. rank (Type m) \<le> b"
      using mset_eq_setD [OF ms'(2)] by (auto simp: lowOutboxes_def set_outboxOf less_Suc_eq_le)
    moreover have "P ms' (cleared tc1)" by (rule collect_inv [OF tc1(2) ok ms'(1)])
    ultimately obtain tc' where "drain orders tick (Suc k) ms' (cleared tc1) = Some (Inr tc')"
      "P [] tc'" "lowOutboxes 0 tc'" "sameSettings (cleared tc1) tc'"
      using Suc.IH [of "cleared tc1" ms'] ok' lowOutboxes_cleared by blast
    moreover have "sameSettings tc (cleared tc1)"
      using keeps(1) sameSettings_cleared sameSettings_trans by blast
    ultimately show ?thesis
      using tc1 ms'(1) False sameSettings_trans by (simp add: drain.simps [of orders tick k ms tc])
  qed
qed

end

section \<open>The network of the test cluster\<close>

definition inflight :: "(int \<rightharpoonup> node) \<Rightarrow> Message multiset" where
  "inflight ns = (\<Sum>i \<in> dom ns. mset (outboxOf ns i))"

definition absOf :: "testCluster \<Rightarrow> Message list \<Rightarrow> cluster" where
  "absOf tc ms = \<lparr>nodes = tcNodes (cleared tc), net = mset ms + inflight (tcNodes tc)\<rparr>"

lemma inflight_concat:
  assumes "distinct ids" "set ids = dom ns"
  shows "mset (concat (map (outboxOf ns) ids)) = inflight ns"
proof -
  have "mset (concat (map (outboxOf ns) ids)) = (\<Sum>i \<leftarrow> ids. mset (outboxOf ns i))"
    by (induction ids) simp_all
  also have "\<dots> = inflight ns"
    using assms by (simp add: inflight_def sum_list_distinct_conv_sum_set)
  finally show ?thesis .
qed

lemma inflight_put:
  assumes "finite (dom ns)" "ns i = Some n" "outbox n' = outbox n @ ms"
  shows "inflight (ns(i \<mapsto> n')) = inflight ns + mset ms"
proof -
  have i: "i \<in> dom ns" using assms(2) by blast
  have "(\<Sum>j \<in> dom ns - {i}. mset (outboxOf (ns(i \<mapsto> n')) j)) = (\<Sum>j \<in> dom ns - {i}. mset (outboxOf ns j))"
    by (rule sum.cong) (auto simp: outboxOf_def)
  moreover have "mset (outboxOf (ns(i \<mapsto> n')) i) = mset (outboxOf ns i) + mset ms"
    using assms(2,3) by (simp add: outboxOf_def)
  moreover have "dom (ns(i \<mapsto> n')) = dom ns" using i by auto
  ultimately show ?thesis
    unfolding inflight_def
    using sum.remove [OF assms(1) i, of "\<lambda>j. mset (outboxOf (ns(i \<mapsto> n')) j)"]
      sum.remove [OF assms(1) i, of "\<lambda>j. mset (outboxOf ns j)"] by simp
qed

lemma inflight_low: "lowOutboxes 0 tc \<Longrightarrow> inflight (tcNodes tc) = {#}"
proof -
  assume "lowOutboxes 0 tc"
  then have "outboxOf (tcNodes tc) i = []" for i
    by (cases "tcNodes tc i") (auto simp: lowOutboxes_def outboxOf_def)
  then show ?thesis by (simp add: inflight_def)
qed

lemma absOf_simps [simp]:
  "net (absOf tc ms) = mset ms + inflight (tcNodes tc)"
  "nodes (absOf tc ms) i = map_option ClearOutbox (tcNodes tc i)"
  by (simp_all add: absOf_def cleared_def)

lemma cleared_idem [simp]: "cleared (cleared tc) = cleared tc"
  by (simp add: cleared_def ClearOutbox_def [abs_def] option.map_comp o_def)

lemma absOf_put:
  assumes "finite (dom (tcNodes tc))" "tcNodes tc i = Some n" "outbox n' = outbox n @ ms'"
  shows "absOf (tc\<lparr>tcNodes := (tcNodes tc)(i \<mapsto> n')\<rparr>) ms =
    (absOf tc ms)\<lparr>nodes := (nodes (absOf tc ms))(i \<mapsto> ClearOutbox n'),
                  net := net (absOf tc ms) + mset ms'\<rparr>"
  using inflight_put [OF assms] by (simp add: absOf_def cleared_def fun_eq_iff)

lemma absOf_collect:
  assumes "validOrder ids tc" "collectOutboxMessages ids tc = (ms, cleared tc)"
  shows "absOf (cleared tc) ms = absOf tc []"
proof -
  have "mset ms = inflight (tcNodes tc)"
    using collect_cleared [OF assms(1)] assms inflight_concat [of ids "tcNodes tc"]
    by (simp add: validOrder_def)
  moreover have "inflight (tcNodes (cleared tc)) = {#}"
    using inflight_low lowOutboxes_cleared by blast
  ultimately show ?thesis by (simp add: absOf_def)
qed

section \<open>All deliveries are fresh\<close>

text \<open>The requests and the granted votes under way belong to the current campaign of their candidate.\<close>

definition current :: "cluster \<Rightarrow> bool" where
  "current c \<longleftrightarrow> (\<forall>m \<in># net c. \<forall>n. role n = RoleCandidate \<longrightarrow>
     (Type m = MessageTypeRequestVoteReq \<longrightarrow> nodes c (From m) = Some n \<longrightarrow> nterm n \<le> Term m) \<and>
     (Type m = MessageTypeRequestVoteRes \<and> Ok m \<longrightarrow> nodes c (To m) = Some n \<longrightarrow> nterm n \<le> Term m))"

lemma current_fresh: "current c \<Longrightarrow> m \<in># net c \<Longrightarrow> nodes c (To m) = Some n \<Longrightarrow> fresh m n"
  by (auto simp: current_def fresh_def)

lemma node_move_candidate:
  assumes "node_move n (MessageEvent m) ms n'" "role n' = RoleCandidate"
  shows "role n = RoleCandidate" "nterm n' = nterm n"
  using assms
  by (induction n "MessageEvent m" ms n' rule: node_move.induct) (auto simp: same_view_def)

lemma node_move_granted:
  assumes "node_move n (MessageEvent m) ms n'" "r \<in> set ms"
  shows "Type r \<noteq> MessageTypeRequestVoteReq"
    and "Type r = MessageTypeRequestVoteRes \<Longrightarrow> Ok r \<Longrightarrow>
      Type m = MessageTypeRequestVoteReq \<and> To r = From m \<and> Term r = Term m"
  using assms
  by (induction n "MessageEvent m" ms n' rule: node_move.induct) (auto simp: inert_def heartbeats_def)

lemma current_shrink: "current c \<Longrightarrow> nodes c' = nodes c \<Longrightarrow> net c' \<subseteq># net c \<Longrightarrow> current c'"
  unfolding current_def by (metis mset_subset_eqD)

lemma currentD:
  assumes "current c" "m \<in># net c" "role n = RoleCandidate"
  shows "Type m = MessageTypeRequestVoteReq \<Longrightarrow> nodes c (From m) = Some n \<Longrightarrow> nterm n \<le> Term m"
    and "Type m = MessageTypeRequestVoteRes \<Longrightarrow> Ok m \<Longrightarrow> nodes c (To m) = Some n \<Longrightarrow> nterm n \<le> Term m"
  using assms by (simp_all add: current_def)

lemma current_deliver:
  assumes "current c" "m \<in># net c" "nodes c i = Some n" "node_move n (MessageEvent m) ms n'"
  shows "current (c\<lparr>nodes := (nodes c)(i \<mapsto> n'), net := net c - {#m#} + mset ms\<rparr>)"
    (is "current ?c")
proof -
  have before: "\<exists>x'. nodes c j = Some x' \<and> role x' = RoleCandidate \<and> nterm x' = nterm x"
    if "nodes ?c j = Some x" "role x = RoleCandidate" for j x
    using that assms(3) node_move_candidate [OF assms(4)] by (auto split: if_splits)
  have old_or_new: "r \<in># net c \<or> r \<in> set ms" if "r \<in># net ?c" for r
    using that by (auto dest: in_diffD)
  show ?thesis
    unfolding current_def
  proof (intro ballI allI impI conjI)
    fix r x
    assume r: "r \<in># net ?c" and x: "role x = RoleCandidate" "Type r = MessageTypeRequestVoteReq"
      "nodes ?c (From r) = Some x"
    then show "nterm x \<le> Term r"
      using before [OF x(3) x(1)] currentD(1) [OF assms(1)] old_or_new [OF r] node_move_granted(1) [OF assms(4)]
      by metis
  next
    fix r x
    assume r: "r \<in># net ?c" and x: "role x = RoleCandidate" "Type r = MessageTypeRequestVoteRes \<and> Ok r"
      "nodes ?c (To r) = Some x"
    then show "nterm x \<le> Term r"
      using before [OF x(3) x(1)] currentD [OF assms(1)] old_or_new [OF r]
        node_move_granted(2) [OF assms(4), of r] assms(2) by metis
  qed
qed

section \<open>The simulation\<close>

definition sim :: "int \<Rightarrow> (int \<Rightarrow> int) \<Rightarrow> (int \<Rightarrow> int) \<Rightarrow> Message list \<Rightarrow> testCluster \<Rightarrow> bool" where
  "sim N electionT heartbeatI ms tc \<longleftrightarrow>
     odd N \<and> 0 < N \<and> N < 2 ^ 62 \<and> finite (dom (tcNodes tc)) \<and>
     creach fresh (initCluster N electionT heartbeatI) (absOf tc ms) \<and> current (absOf tc ms)"

lemma sim_node:
  assumes "odd N" "0 < N" "N < 2 ^ 62" "creach fresh (initCluster N electionT heartbeatI) c" "nodes c i = Some n"
  shows "node_ok n" "no_overflow n" "outbox n = []" "nid n = i"
    and "m \<in># net c \<Longrightarrow> Type m \<noteq> MessageTypeOther s"
proof -
  obtain k H K where inv: "cinv k c H K" "N = 2 * int k + 1" using odd_creach_cinv [OF assms(1-4)] .
  then show "no_overflow n" using cinv_no_overflow assms(3,5) by simp
  from inv have "cwf k c" by (simp add: cinv_def)
  then show "node_ok n" "outbox n = []" "nid n = i" "m \<in># net c \<Longrightarrow> Type m \<noteq> MessageTypeOther s"
    using assms(5) by (auto simp: cwf_def)
qed

lemma sim_drop:
  assumes "sim N electionT heartbeatI (m # ms) tc"
  shows "sim N electionT heartbeatI ms tc"
proof -
  let ?c = "absOf tc (m # ms)"
  have c': "absOf tc ms = ?c\<lparr>net := net ?c - {#m#}\<rparr>" by (simp add: absOf_def)
  have "m \<in># net ?c" by simp
  then have "cstep fresh ?c (absOf tc ms)" unfolding c' by (rule cstep.cdrop)
  moreover have "current (absOf tc ms)"
    by (rule current_shrink [of ?c]) (use assms in \<open>auto simp: sim_def fun_eq_iff\<close>)
  ultimately show ?thesis using assms creach_step unfolding sim_def by blast
qed

lemma sim_deliver:
  assumes "sim N electionT heartbeatI (m # ms) tc" "tcNodes tc (To m) = Some n"
  shows "\<exists>n'. Step (MessageEvent m) tick n = Inr n' \<and>
    sim N electionT heartbeatI ms (tc\<lparr>tcNodes := (tcNodes tc)(To m \<mapsto> n')\<rparr>)"
proof -
  let ?c = "absOf tc (m # ms)"
  have c: "m \<in># net ?c" "nodes ?c (To m) = Some (ClearOutbox n)" using assms(2) by simp_all
  from assms(1) have N: "odd N" "0 < N" "N < 2 ^ 62" and fin: "finite (dom (tcNodes tc))"
    and reach: "creach fresh (initCluster N electionT heartbeatI) ?c" and cur: "current ?c"
    by (simp_all add: sim_def)
  obtain n' ms' where n': "Step (MessageEvent m) tick n = Inr n'" "outbox n' = outbox n @ ms'"
    "handleInbox (MessageEvent m) tick (ClearOutbox n) = Inr (ms', ClearOutbox n')"
  proof (cases "Step (MessageEvent m) tick n")
    case (Inl p)
    then show thesis
      using fresh_run_handles [OF N reach c, of tick] by (simp add: Step_panic_handleInbox)
  next
    case (Inr x)
    then show thesis using that Step_handleInbox by blast
  qed
  let ?tc = "tc\<lparr>tcNodes := (tcNodes tc)(To m \<mapsto> n')\<rparr>"
  have c': "absOf ?tc ms =
      ?c\<lparr>nodes := (nodes ?c)(To m \<mapsto> ClearOutbox n'), net := net ?c - {#m#} + mset ms'\<rparr>"
    unfolding absOf_put [OF fin assms(2) n'(2)] by (simp add: absOf_def)
  have rpc: "handleRpc (ClearOutbox n) (Some m) = (200, Some m)"
    using sim_node(4,5) [OF N reach c(2)] c(1) by (simp add: handleRpc_def)
  have "cstep fresh ?c (absOf ?tc ms)"
    unfolding c' by (rule cstep.cdeliver [where allow = fresh, OF c rpc refl current_fresh [OF cur c] n'(3)])
  moreover have "current (absOf ?tc ms)"
    unfolding c' by (rule current_deliver [OF cur c])
      (use handleInbox_move [OF n'(3)] sim_node(1-3) [OF N reach c(2)] in blast)
  moreover have "finite (dom (tcNodes ?tc))" using fin by simp
  ultimately show ?thesis using n'(1) N reach creach_step unfolding sim_def by blast
qed

interpretation simulation: drain_invariant "sim N electionT heartbeatI" tick
  for N electionT heartbeatI tick
proof
  fix m ms tc
  assume s: "sim N electionT heartbeatI (m # ms) tc"
  show "\<exists>tc'. deliver tick m tc = Inr tc' \<and> sim N electionT heartbeatI ms tc'"
  proof (cases "dropped tc tick m \<or> tcNodes tc (To m) = None")
    case True
    then have "deliver tick m tc = Inr tc" by (auto simp: deliver_def)
    with sim_drop [OF s] show ?thesis by blast
  next
    case False
    then obtain n where "tcNodes tc (To m) = Some n" "\<not> dropped tc tick m" by blast
    with sim_deliver [OF s, of n tick] show ?thesis by (auto simp: deliver_def)
  qed
next
  fix tc ids ms
  assume s: "sim N electionT heartbeatI [] tc" "validOrder ids tc"
    and ms: "collectOutboxMessages ids tc = (ms, cleared tc)"
  moreover have "dom (tcNodes (cleared tc)) = dom (tcNodes tc)"
    using sameSettings_cleared by (auto simp: sameSettings_def)
  ultimately show "sim N electionT heartbeatI ms (cleared tc)"
    by (simp add: sim_def absOf_collect [OF s(2) ms])
qed

text \<open>
  The first phase of a tick: the nodes that have moved are \<open>D\<close>, and what is under way are the
  vote requests and heartbeats they have just written.
\<close>

definition ticking :: "int set \<Rightarrow> cluster \<Rightarrow> bool" where
  "ticking D c \<longleftrightarrow> (\<forall>m \<in># net c. From m \<in> D \<and>
     (Type m = MessageTypeAppendEntriesReq \<or>
      Type m = MessageTypeRequestVoteReq \<and> (\<forall>n. nodes c (From m) = Some n \<longrightarrow> nterm n \<le> Term m)))"

lemma ticking_current: "ticking D c \<Longrightarrow> current c"
  by (auto simp: ticking_def current_def)

lemma node_move_tick:
  assumes "node_move n Tick ms n'" "r \<in> set ms"
  shows "From r = nid n" "Type r = MessageTypeAppendEntriesReq \<or> Type r = MessageTypeRequestVoteReq \<and> nterm n' \<le> Term r"
  using assms
  by (induction n "Tick" ms n' rule: node_move.induct)
     (auto simp: heartbeats_def voteRequests_def keeps_identity_def)

lemma ticking_move:
  assumes "ticking D c" "i \<notin> D" "node_move n Tick ms n'" "nid n = i"
  shows "ticking (insert i D) (c\<lparr>nodes := (nodes c)(i \<mapsto> n'), net := net c + mset ms\<rparr>)"
  using assms node_move_tick [OF assms(3)] by (fastforce simp: ticking_def)

lemma tickNodes_sim:
  assumes N: "odd N" "0 < N" "N < 2 ^ 62"
    and "creach fresh (initCluster N electionT heartbeatI) (absOf tc [])" "ticking D (absOf tc [])"
    and "finite (dom (tcNodes tc))" "distinct ids" "set ids \<inter> D = {}"
    and "\<And>i n. i \<in> set ids \<Longrightarrow> tcNodes tc i = Some n \<Longrightarrow> nterm n < max_i64 - 1"
  shows "\<exists>tc'. tickNodes ids tick tc = Inr tc' \<and> sim N electionT heartbeatI [] tc'"
  using assms(4-)
proof (induction ids arbitrary: tc D)
  case Nil
  then show ?case using N ticking_current by (auto simp: sim_def)
next
  case (Cons i ids)
  show ?case
  proof (cases "tcNodes tc i")
    case None
    then show ?thesis using Cons.IH [OF Cons.prems(1-3)] Cons.prems(4-) by auto
  next
    case (Some n)
    then have c: "nodes (absOf tc []) i = Some (ClearOutbox n)" by simp
    note node = sim_node(1-4) [OF N Cons.prems(1) c]
    have "Step Tick tick n \<noteq> Inl p" for p
      unfolding Step_panic_handleInbox
      by (auto simp: handleInbox_def bind_res_Inl_iff step_panics_char [OF node(1)])
    then obtain n' where n': "Step Tick tick n = Inr n'" by (cases "Step Tick tick n") auto
    then obtain ms where ms: "handleInbox Tick tick (ClearOutbox n) = Inr (ms, ClearOutbox n')"
      "outbox n' = outbox n @ ms" using Step_handleInbox by blast
    let ?tc = "tc\<lparr>tcNodes := (tcNodes tc)(i \<mapsto> n')\<rparr>"
    note put = absOf_put [OF Cons.prems(3) Some ms(2), of "[]"]
    have bound: "nterm (ClearOutbox n) < max_i64 - 1"
      using Cons.prems(6) [of i n] Some by (simp add: ClearOutbox_def)
    have "cstep fresh (absOf tc []) (absOf ?tc [])"
      unfolding put by (rule cstep.ctick [OF c bound ms(1)])
    then have "creach fresh (initCluster N electionT heartbeatI) (absOf ?tc [])"
      using Cons.prems(1) creach_step by blast
    moreover have "ticking (insert i D) (absOf ?tc [])"
      unfolding put using Cons.prems(2,5) handleInbox_move [OF ms(1)] node
      by (intro ticking_move) auto
    moreover have "finite (dom (tcNodes ?tc))" using Cons.prems(3) by simp
    ultimately have "\<exists>tc'. tickNodes ids tick ?tc = Inr tc' \<and> sim N electionT heartbeatI [] tc'"
      by (rule Cons.IH) (use Cons.prems in \<open>auto split: if_splits\<close>)
    then show ?thesis using Some n' by simp
  qed
qed

text \<open>A test cluster between two ticks: no message is under way.\<close>

definition resting :: "int \<Rightarrow> (int \<Rightarrow> int) \<Rightarrow> (int \<Rightarrow> int) \<Rightarrow> testCluster \<Rightarrow> bool" where
  "resting N electionT heartbeatI tc \<longleftrightarrow> lowOutboxes 0 tc \<and> finite (dom (tcNodes tc)) \<and>
     creach fresh (initCluster N electionT heartbeatI) (absOf tc [])"

definition termsBelow :: "testCluster \<Rightarrow> bool" where
  "termsBelow tc \<longleftrightarrow> (\<forall>i n. tcNodes tc i = Some n \<longrightarrow> nterm n < max_i64 - 1)"

lemma clusterTick_sim:
  assumes N: "odd N" "0 < N" "N < 2 ^ 62"
    and tc: "resting N electionT heartbeatI tc" "termsBelow tc"
    and ok: "\<And>k. validOrder (orders k) tc"
  shows "\<exists>tc'. clusterTick orders tick tc = Some (Inr tc') \<and> resting N electionT heartbeatI tc' \<and> sameSettings tc tc'"
proof -
  from tc(1) have low: "lowOutboxes 0 tc" and fin: "finite (dom (tcNodes tc))"
    and reach: "creach fresh (initCluster N electionT heartbeatI) (absOf tc [])"
    by (simp_all add: resting_def)
  have "ticking {} (absOf tc [])" by (simp add: ticking_def inflight_low [OF low])
  then obtain tc1 where tc1: "tickNodes (orders 0) tick tc = Inr tc1" "sim N electionT heartbeatI [] tc1"
    using tickNodes_sim [OF N reach _ fin, of "{}" "orders 0" tick] ok [of 0] tc(2)
    by (auto simp: termsBelow_def validOrder_def)
  note same = tickNodes_keeps [OF tc1(1)]
  have ok1: "validOrder (orders k) tc1" for k by (simp add: ok sameSettings_order [OF same])
  then have ok2: "validOrder (orders k) (cleared tc1)" for k
    by (simp add: sameSettings_order [OF sameSettings_cleared])
  obtain ms where ms: "collectOutboxMessages (orders 1) tc1 = (ms, cleared tc1)"
    using collect_cleared [OF ok1] by blast
  have "sim N electionT heartbeatI ms (cleared tc1)"
    by (rule simulation.collect_inv [OF tc1(2) ok1 ms])
  then obtain tc' where "drain orders tick 2 ms (cleared tc1) = Some (Inr tc')"
    "sim N electionT heartbeatI [] tc'" "lowOutboxes 0 tc'" "sameSettings (cleared tc1) tc'"
    using simulation.drain_inv [of orders "cleared tc1" ms 4] ok2 lowOutboxes_cleared by fastforce
  moreover have "sameSettings tc (cleared tc1)"
    using same sameSettings_cleared sameSettings_trans by blast
  ultimately show ?thesis
    using tc1(1) ms sameSettings_trans by (auto simp: clusterTick_def sim_def resting_def)
qed

section \<open>Runs of the test cluster\<close>

text \<open>
  Everything a test can do with a cluster. The bound on the terms excludes runs with \<open>2 ^ 63\<close>
  elections; the orders of the iterations are any orders of the nodes.
\<close>

inductive hreach :: "int \<Rightarrow> int list \<Rightarrow> int \<Rightarrow> testCluster \<Rightarrow> bool"
  for nodeCount :: int and electionTimeouts :: "int list" and heartbeatI :: int where
  hstart: "NewTestCluster nodeCount electionTimeouts heartbeatI = Inr tc \<Longrightarrow>
    hreach nodeCount electionTimeouts heartbeatI tc"
| htick: "hreach nodeCount electionTimeouts heartbeatI tc \<Longrightarrow> termsBelow tc \<Longrightarrow> (\<And>k. validOrder (orders k) tc) \<Longrightarrow>
    clusterTick orders tick tc = Some (Inr tc') \<Longrightarrow> hreach nodeCount electionTimeouts heartbeatI tc'"
| hdisable: "hreach nodeCount electionTimeouts heartbeatI tc \<Longrightarrow>
    hreach nodeCount electionTimeouts heartbeatI (DisableNode i tc)"
| henable: "hreach nodeCount electionTimeouts heartbeatI tc \<Longrightarrow>
    hreach nodeCount electionTimeouts heartbeatI (EnableNode i tc)"
| hfilter: "hreach nodeCount electionTimeouts heartbeatI tc \<Longrightarrow>
    hreach nodeCount electionTimeouts heartbeatI (SetDropMessageFilter f tc)"
| hsorter: "hreach nodeCount electionTimeouts heartbeatI tc \<Longrightarrow>
    hreach nodeCount electionTimeouts heartbeatI (SetMessageSorter g tc)"

definition timeoutOf :: "int list \<Rightarrow> int \<Rightarrow> int" where
  "timeoutOf electionTimeouts i = electionTimeouts ! nat (i - 1)"

lemma NewTestCluster_nodes:
  assumes "NewTestCluster N electionTimeouts heartbeatI = Inr tc"
  shows "tcNodes tc = (\<lambda>i. if 1 \<le> i \<and> i \<le> N
           then Some (NewNode i (peersOf N i) (timeoutOf electionTimeouts i) heartbeatI) else None)"
    and "disabledNodes tc = (\<lambda>_. False)" "dropMessageFunc tc = None" "messageSorterFunc tc = None"
proof -
  have "map_of (map (\<lambda>i. (i, f i)) [1..N]) = (\<lambda>i. if 1 \<le> i \<and> i \<le> N then Some (f i) else None)" for f :: "int \<Rightarrow> node"
    by (auto simp: map_of_map_restrict restrict_map_def fun_eq_iff)
  then show "tcNodes tc = (\<lambda>i. if 1 \<le> i \<and> i \<le> N
           then Some (NewNode i (peersOf N i) (timeoutOf electionTimeouts i) heartbeatI) else None)"
    and "disabledNodes tc = (\<lambda>_. False)" "dropMessageFunc tc = None" "messageSorterFunc tc = None"
    using assms by (auto simp: NewTestCluster_def peersOf_def timeoutOf_def Let_def split: if_splits)
qed

lemma NewTestCluster_resting:
  assumes "NewTestCluster N electionTimeouts heartbeatI = Inr tc"
  shows "resting N (timeoutOf electionTimeouts) (\<lambda>_. heartbeatI) tc"
proof -
  note ns = NewTestCluster_nodes(1) [OF assms]
  have low: "lowOutboxes 0 tc" by (simp add: lowOutboxes_def ns NewNode_def)
  have "dom (tcNodes tc) \<subseteq> {1..N}" by (auto simp: ns split: if_splits)
  then have "finite (dom (tcNodes tc))" using finite_subset by blast
  moreover have "absOf tc [] = initCluster N (timeoutOf electionTimeouts) (\<lambda>_. heartbeatI)"
    using inflight_low [OF low]
    by (auto simp: absOf_def cleared_def initCluster_def ns NewNode_def ClearOutbox_def fun_eq_iff)
  ultimately show ?thesis using low creach_init by (simp add: resting_def)
qed

lemma resting_settings:
  "tcNodes tc' = tcNodes tc \<Longrightarrow> resting N electionT heartbeatI tc \<Longrightarrow> resting N electionT heartbeatI tc'"
  by (simp add: resting_def lowOutboxes_def absOf_def cleared_def)

lemma hreach_resting:
  assumes "hreach N electionTimeouts heartbeatI tc" "odd N" "0 < N" "N < 2 ^ 62"
  shows "resting N (timeoutOf electionTimeouts) (\<lambda>_. heartbeatI) tc"
  using assms
proof (induction rule: hreach.induct)
  case (hstart tc)
  then show ?case using NewTestCluster_resting by blast
next
  case (htick tc orders tick tc')
  then show ?case using clusterTick_sim [of N "timeoutOf electionTimeouts" "\<lambda>_. heartbeatI" tc orders tick] by simp
qed (auto intro: resting_settings
      simp: DisableNode_def EnableNode_def SetDropMessageFilter_def SetMessageSorter_def)

definition harnessLeads :: "testCluster \<Rightarrow> int \<Rightarrow> int \<Rightarrow> bool" where
  "harnessLeads tc i t \<longleftrightarrow> GetRole i tc = RoleLeader \<and> GetTerm i tc = Inr t"

lemma harnessLeads_leads: "harnessLeads tc i t \<longleftrightarrow> leads (absOf tc []) i t"
  by (auto simp: harnessLeads_def GetRole_def GetTerm_def leads_def ClearOutbox_def split: option.splits)

section \<open>Properties\<close>

text \<open>
  C18: Every tick of a test comes to its end: whatever the state of the cluster, the drop filter, the
  sorter and the orders in which Go iterates over the nodes, the delivery loop of \<open>Tick\<close>
  returns, and so does \<open>WaitForLeader\<close>, with a result or with a panic.
\<close>

theorem harness_calls_return:
  assumes "\<And>t k. validOrder (sched t k) tc"
  shows "(\<exists>r. clusterTick (sched tick) tick tc = Some r) \<and>
    (\<exists>r. WaitForLeader sched look timeout tc = Some r)"
  using clusterTick_returns [of "sched tick" tc tick] waitFrom_returns [of sched tc look timeout 0] assms
  by (auto simp: WaitForLeader_def)

definition demoCluster :: testCluster where
  "demoCluster = (case NewTestCluster 3 [10, 20, 30] 5 of Inr tc \<Rightarrow> tc)"

lemma demoCluster_new: "NewTestCluster 3 [10, 20, 30] 5 = Inr demoCluster"
  by (simp add: demoCluster_def NewTestCluster_def Let_def)

lemma demoCluster_order: "validOrder [2, 3, 1] demoCluster"
proof -
  have "dom (tcNodes demoCluster) = {1..3}"
    by (auto simp: NewTestCluster_nodes(1) [OF demoCluster_new] split: if_splits)
  moreover have "{1..3} = {1, 2, 3 :: int}" by auto
  ultimately show ?thesis by (auto simp: validOrder_def)
qed

theorem harness_calls_return_witness:
  "(\<exists>r. clusterTick (\<lambda>_. [2, 3, 1]) 10 demoCluster = Some r) \<and>
   (\<exists>r. WaitForLeader (\<lambda>_ _. [2, 3, 1]) (\<lambda>_. [1, 2, 3]) 50 demoCluster = Some r)"
  using harness_calls_return [of "\<lambda>_ _. [2, 3, 1]" demoCluster 10 "\<lambda>_. [1, 2, 3]" 50] demoCluster_order by simp

text \<open>
  C5: The test cluster refines the asynchronous cluster: in every run of a test with an odd number
  of nodes the roles and terms are those of a run of the cluster with fresh deliveries only.
  Hence no two nodes lead the same term, and no tick panics; the double leaders that late votes
  cause are out of reach of these tests.
\<close>

theorem test_runs_are_safe:
  assumes "hreach N electionTimeouts heartbeatI tc" "odd N" "0 < N" "N < 2 ^ 62"
  shows "creach fresh (initCluster N (timeoutOf electionTimeouts) (\<lambda>_. heartbeatI)) (absOf tc []) \<and>
    (\<forall>i j t. harnessLeads tc i t \<and> harnessLeads tc j t \<longrightarrow> i = j) \<and>
    (termsBelow tc \<longrightarrow> (\<forall>orders tick. (\<forall>k. validOrder (orders k) tc) \<longrightarrow>
      (\<exists>tc'. clusterTick orders tick tc = Some (Inr tc'))))"
proof -
  note rest = hreach_resting [OF assms]
  then have reach: "creach fresh (initCluster N (timeoutOf electionTimeouts) (\<lambda>_. heartbeatI)) (absOf tc [])"
    by (simp add: resting_def)
  have "\<exists>tc'. clusterTick orders tick tc = Some (Inr tc')"
    if "termsBelow tc" "\<And>k. validOrder (orders k) tc" for orders tick
    using clusterTick_sim [OF assms(2-4) rest that(1), of orders tick] that(2) by blast
  moreover obtain k H K where "cinv k (absOf tc []) H K" using odd_creach_cinv [OF assms(2-4) reach] .
  then have "i = j" if "harnessLeads tc i t" "harnessLeads tc j t" for i j t
    using that unfolding harnessLeads_leads by (rule cinv_one_leader)
  ultimately show ?thesis using reach by blast
qed

theorem test_runs_are_safe_witness:
  "creach fresh (initCluster 3 (timeoutOf [10, 20, 30]) (\<lambda>_. 5)) (absOf demoCluster []) \<and>
   \<not> (harnessLeads demoCluster 1 1 \<and> harnessLeads demoCluster 2 1) \<and>
   (\<exists>tc'. clusterTick (\<lambda>_. [2, 3, 1]) 10 demoCluster = Some (Inr tc'))"
proof -
  have r: "hreach 3 [10, 20, 30] 5 demoCluster" by (rule hreach.hstart [OF demoCluster_new])
  have t: "termsBelow demoCluster"
    by (auto simp: termsBelow_def NewTestCluster_nodes(1) [OF demoCluster_new] NewNode_def split: if_splits)
  have "(1 :: int) \<noteq> 2" by simp
  with test_runs_are_safe [OF r] t demoCluster_order show ?thesis by fastforce
qed

end
