(* ===== verification/Raft_Election.thy ===== *)
theory Raft_Election
  imports Raft_Harness_Sim
begin

text \<open>
  An election that succeeds. In a new test cluster in which no message is lost and one node has the
  shortest election timeout, \<open>WaitForLeader\<close> returns that node, at the tick of its timeout, for
  every number of nodes and every order in which messages are delivered.
\<close>

section \<open>The round of messages of one election\<close>

definition voting :: "Message \<Rightarrow> bool" where
  "voting m \<longleftrightarrow> Type m = MessageTypeRequestVoteReq \<or> Type m = MessageTypeRequestVoteRes"

definition electionMessage :: "int \<Rightarrow> int \<Rightarrow> Message \<Rightarrow> bool" where
  "electionMessage N l m \<longleftrightarrow> Term m = 1 \<and> 1 \<le> To m \<and> To m \<le> N \<and>
     (Type m = MessageTypeRequestVoteReq \<and> From m = l \<and> To m \<noteq> l \<or>
      Type m = MessageTypeRequestVoteRes \<and> Ok m \<and> To m = l \<or>
      Type m = MessageTypeAppendEntriesReq \<and> From m = l \<and> To m \<noteq> l \<or>
      Type m = MessageTypeAppendEntriesRes)"

text \<open>A node that is not a candidate, and the candidate: it still lacks votes, or it leads.\<close>

definition voter :: "int \<Rightarrow> int \<Rightarrow> int \<Rightarrow> node \<Rightarrow> bool" where
  "voter N l j n \<longleftrightarrow> nid n = j \<and> role n = RoleFollower \<and>
     (nterm n = 0 \<or> nterm n = 1) \<and> (votedFor n = 0 \<or> votedFor n = l)"

definition chosen :: "int \<Rightarrow> int \<Rightarrow> Message multiset \<Rightarrow> node \<Rightarrow> bool" where
  "chosen N l M n \<longleftrightarrow> nid n = l \<and> peerIDs n = peersOf N l \<and> nterm n = 1 \<and>
     (role n = RoleLeader \<or>
      role n = RoleCandidate \<and> 1 < N \<and> 1 \<le> votesReceived n \<and> votesReceived n \<le> max 1 ((N - 1) div 2) \<and>
      votesReceived n + int (size (filter_mset voting M)) = N)"

definition electing :: "int \<Rightarrow> int \<Rightarrow> cluster \<Rightarrow> bool" where
  "electing N l c \<longleftrightarrow> 1 \<le> l \<and> l \<le> N \<and> N < 2 ^ 62 \<and> (\<forall>m \<in># net c. electionMessage N l m) \<and>
     dom (nodes c) = {1..N} \<and> (\<forall>j n. nodes c j = Some n \<longrightarrow> j \<noteq> l \<longrightarrow> voter N l j n) \<and>
     (\<exists>n. nodes c l = Some n \<and> chosen N l (net c) n)"

lemma voter_handles:
  assumes "voter N l j n" "electionMessage N l m" "To m = j" "j \<noteq> l" "outbox n = []" "1 \<le> l" "l \<le> N"
  obtains ms n' where "handleInbox (MessageEvent m) tick n = Inr (ms, n')" "voter N l j n'"
    "\<forall>r \<in> set ms. electionMessage N l r"
    "length (filter voting ms) = (if voting m then 1 else 0)"
proof -
  have "\<exists>ms n'. handleInbox (MessageEvent m) tick n = Inr (ms, n') \<and> voter N l j n' \<and>
    (\<forall>r \<in> set ms. electionMessage N l r) \<and> length (filter voting ms) = (if voting m then 1 else 0)"
  proof (cases "Type m")
    case MessageTypeAppendEntriesReq
    then show ?thesis using assms
      by (auto simp: electionMessage_def voter_def handleInbox_def Step_def handleAppendEntriesRequest_def
          Let_def send_def becomeFollower_def Outbox_def ClearOutbox_def voting_def)
  next
    case MessageTypeAppendEntriesRes
    then show ?thesis using assms
      by (auto simp: electionMessage_def voter_def handleInbox_def Step_def handleAppendEntriesResponse_def
          Outbox_def ClearOutbox_def voting_def)
  next
    case MessageTypeRequestVoteReq
    then show ?thesis using assms
      by (auto simp: electionMessage_def voter_def handleInbox_def Step_def handleRequestVoteRequest_def
          Let_def send_def becomeFollower_def Outbox_def ClearOutbox_def voting_def)
  qed (use assms in \<open>auto simp: electionMessage_def\<close>)
  with that show thesis by blast
qed

lemma length_peersOf_div: "1 \<le> i \<Longrightarrow> i \<le> N \<Longrightarrow> int (length (peersOf N i) div 2) = (N - 1) div 2"
  by (simp add: length_peersOf zdiv_int)

lemma chosen_handles:
  assumes "chosen N l M n" "electionMessage N l m" "To m = l" "outbox n = []" "1 \<le> l" "l \<le> N" "N < 2 ^ 62"
    and "m \<in># M"
  obtains ms n' where "handleInbox (MessageEvent m) tick n = Inr (ms, n')"
    "chosen N l (M - {#m#} + mset ms) n'" "\<forall>r \<in> set ms. electionMessage N l r"
proof -
  note defs = handleInbox_def Step_def Outbox_def ClearOutbox_def
  have size: "int (size (filter_mset voting (M - {#m#}))) = int (size (filter_mset voting M)) - 1" if "voting m"
    using that multi_member_split [OF assms(8)] by auto
  show thesis
  proof (cases "Type m")
    case MessageTypeAppendEntriesRes
    then have "handleInbox (MessageEvent m) tick n = Inr ([], n)" using assms(1,2,4)
      by (cases n) (auto simp: defs handleAppendEntriesResponse_def electionMessage_def chosen_def)
    moreover have "filter_mset voting (M - {#m#}) = filter_mset voting M"
      using MessageTypeAppendEntriesRes by (simp add: filter_diff_mset voting_def)
    ultimately show thesis using that assms(1) by (auto simp: chosen_def)
  next
    case MessageTypeRequestVoteRes
    then have m: "Ok m" "Term m = 1" "voting m" using assms(2) by (auto simp: electionMessage_def voting_def)
    show thesis
    proof (cases "role n = RoleCandidate")
      case False
      then have "handleInbox (MessageEvent m) tick n = Inr ([], n)"
        using assms(1,4) m MessageTypeRequestVoteRes
        by (cases n) (auto simp: defs handleRequestVoteResponse_def chosen_def)
      then show thesis using that assms(1) False by (auto simp: chosen_def)
    next
      case True
      then have n: "nid n = l" "peerIDs n = peersOf N l" "nterm n = 1" "1 \<le> votesReceived n"
        "votesReceived n \<le> max 1 ((N - 1) div 2)" "votesReceived n + int (size (filter_mset voting M)) = N" "1 < N"
        using assms(1) by (auto simp: chosen_def)
      have v: "i64 (votesReceived n + 1) = votesReceived n + 1"
        using n(4,5) assms(7) by (intro i64_id) (simp add: in_i64_def)
      let ?n = "n\<lparr>votesReceived := votesReceived n + 1\<rparr>"
      show thesis
      proof (cases "(N - 1) div 2 < votesReceived n + 1")
        case False
        then have "handleInbox (MessageEvent m) tick n = Inr ([], ?n)"
          using v True m n MessageTypeRequestVoteRes assms(4-6)
          by (cases n) (simp add: defs handleRequestVoteResponse_def Let_def length_peersOf_div)
        moreover have "chosen N l (M - {#m#} + mset []) ?n"
          using True n False size [OF m(3)] by (simp add: chosen_def)
        ultimately show thesis using that by simp
      next
        case win: True
        let ?n' = "?n\<lparr>role := RoleLeader, lastHeartbeatSentAt := tick\<rparr>"
        have "handleInbox (MessageEvent m) tick n = Inr (heartbeats n, ?n')"
          using v True m n MessageTypeRequestVoteRes assms(4-6) win
          by (cases n) (simp add: defs handleRequestVoteResponse_def Let_def length_peersOf_div
              becomeLeader_def broadcastHeartbeats_def appendHeartbeats_outbox heartbeats_def)
        moreover have "chosen N l (M - {#m#} + mset (heartbeats n)) ?n'" using n by (simp add: chosen_def)
        moreover have "\<forall>r \<in> set (heartbeats n). electionMessage N l r"
          using n by (auto simp: heartbeats_def electionMessage_def set_peersOf)
        ultimately show thesis using that by blast
      qed
    qed
  qed (use assms in \<open>auto simp: electionMessage_def\<close>)
qed

lemma electing_deliver:
  assumes "electing N l c" "m \<in># net c" "nodes c (To m) = Some n" "outbox n = []"
  obtains ms n' where "handleInbox (MessageEvent m) tick n = Inr (ms, n')"
    "electing N l (c\<lparr>nodes := (nodes c)(To m \<mapsto> n'), net := net c - {#m#} + mset ms\<rparr>)"
proof -
  from assms(1,2) have l: "1 \<le> l" "l \<le> N" "N < 2 ^ 62" and m: "electionMessage N l m"
    by (auto simp: electing_def)
  have dom: "dom ((nodes c)(To m \<mapsto> n')) = {1..N}" for n'
    using assms(1,3) by (auto simp: electing_def)
  have net: "\<forall>r \<in># net c - {#m#} + mset ms. electionMessage N l r"
    if "\<forall>r \<in> set ms. electionMessage N l r" for ms
    using that assms(1) by (auto simp: electing_def dest: in_diffD)
  show thesis
  proof (cases "To m = l")
    case True
    then have "chosen N l (net c) n" using assms(1,3) by (auto simp: electing_def)
    then obtain ms n' where "handleInbox (MessageEvent m) tick n = Inr (ms, n')"
      "chosen N l (net c - {#m#} + mset ms) n'" "\<forall>r \<in> set ms. electionMessage N l r"
      using chosen_handles m True assms(2,4) l by metis
    with that show thesis using assms(1) True dom net by (auto simp: electing_def)
  next
    case False
    then have "voter N l (To m) n" using assms(1,3) by (auto simp: electing_def)
    then obtain ms n' where n': "handleInbox (MessageEvent m) tick n = Inr (ms, n')" "voter N l (To m) n'"
      "\<forall>r \<in> set ms. electionMessage N l r" "length (filter voting ms) = (if voting m then 1 else 0)"
      using voter_handles m False assms(4) l by metis
    have "size (filter_mset voting (net c - {#m#} + mset ms)) = size (filter_mset voting (net c))"
      using multi_member_split [OF assms(2)] n'(4) by (auto simp flip: size_mset mset_filter)
    with that n' show thesis using assms(1) False dom net by (auto simp: electing_def chosen_def)
  qed
qed

definition openElection :: "int \<Rightarrow> int \<Rightarrow> Message list \<Rightarrow> testCluster \<Rightarrow> bool" where
  "openElection N l ms tc \<longleftrightarrow> electing N l (absOf tc ms) \<and>
     disabledNodes tc = (\<lambda>_. False) \<and> dropMessageFunc tc = None"

lemma openElection_fin: "openElection N l ms tc \<Longrightarrow> finite (dom (tcNodes tc))"
proof -
  assume "openElection N l ms tc"
  then have "dom (nodes (absOf tc ms)) = {1..N}" by (simp add: openElection_def electing_def)
  moreover have "dom (nodes (absOf tc ms)) = dom (tcNodes tc)" by (auto simp: dom_def)
  ultimately show ?thesis by simp
qed

interpretation election: drain_invariant "openElection N l" tick
  for N l tick
proof
  fix m ms tc
  assume e: "openElection N l (m # ms) tc"
  let ?c = "absOf tc (m # ms)"
  from e have c: "electing N l ?c" "m \<in># net ?c" by (simp_all add: openElection_def)
  then have "To m \<in> dom (nodes ?c)" by (auto simp: electing_def electionMessage_def)
  then obtain n where n: "tcNodes tc (To m) = Some n" by auto
  then have cn: "nodes ?c (To m) = Some (ClearOutbox n)" "outbox (ClearOutbox n) = []"
    by (simp_all add: ClearOutbox_def)
  obtain ms' x where x: "handleInbox (MessageEvent m) tick (ClearOutbox n) = Inr (ms', x)"
    "electing N l (?c\<lparr>nodes := (nodes ?c)(To m \<mapsto> x), net := net ?c - {#m#} + mset ms'\<rparr>)"
    using electing_deliver [OF c cn] .
  then have "Step (MessageEvent m) tick n \<noteq> Inl p" for p by (simp add: Step_panic_handleInbox)
  then obtain n' where n': "Step (MessageEvent m) tick n = Inr n'"
    by (cases "Step (MessageEvent m) tick n") auto
  then have eq: "x = ClearOutbox n'" "outbox n' = outbox n @ ms'" using x(1) Step_handleInbox by auto
  let ?tc = "tc\<lparr>tcNodes := (tcNodes tc)(To m \<mapsto> n')\<rparr>"
  have "absOf ?tc ms = ?c\<lparr>nodes := (nodes ?c)(To m \<mapsto> x), net := net ?c - {#m#} + mset ms'\<rparr>"
    unfolding absOf_put [OF openElection_fin [OF e] n eq(2)] by (simp add: absOf_def eq)
  then have "openElection N l ms ?tc" using e x(2) by (simp add: openElection_def)
  moreover have "deliver tick m tc = Inr ?tc"
    using e n n' by (simp add: deliver_def dropped_def openElection_def)
  ultimately show "\<exists>tc'. deliver tick m tc = Inr tc' \<and> openElection N l ms tc'" by blast
next
  fix tc ids ms
  assume e: "openElection N l [] tc" "validOrder ids tc"
    and ms: "collectOutboxMessages ids tc = (ms, cleared tc)"
  then show "openElection N l ms (cleared tc)"
    by (simp add: openElection_def absOf_collect [OF e(2) ms]) (simp add: cleared_def)
qed

text \<open>When all messages are delivered, the candidate leads.\<close>

lemma election_won:
  assumes "openElection N l [] tc" "lowOutboxes 0 tc"
  shows "\<exists>n. tcNodes tc l = Some n \<and> nid n = l \<and> role n = RoleLeader \<and> nterm n = 1"
    and "tcNodes tc j = Some n' \<Longrightarrow> j \<noteq> l \<Longrightarrow> role n' = RoleFollower"
proof -
  from assms(1) have e: "electing N l (absOf tc [])" by (simp add: openElection_def)
  then obtain x where x: "nodes (absOf tc []) l = Some x" "chosen N l (net (absOf tc [])) x" and "1 \<le> l" "l \<le> N"
    by (auto simp: electing_def)
  then obtain n where "tcNodes tc l = Some n" "x = ClearOutbox n" by auto
  moreover have "role x = RoleLeader"
    using x(2) \<open>1 \<le> l\<close> \<open>l \<le> N\<close> by (auto simp: chosen_def inflight_low [OF assms(2)])
  ultimately show "\<exists>n. tcNodes tc l = Some n \<and> nid n = l \<and> role n = RoleLeader \<and> nterm n = 1"
    using x(2) by (auto simp: chosen_def ClearOutbox_def)
  assume "tcNodes tc j = Some n'" "j \<noteq> l"
  with e have "voter N l j (ClearOutbox n')" by (simp add: electing_def)
  then show "role n' = RoleFollower" by (simp add: voter_def ClearOutbox_def)
qed

section \<open>Waiting for the leader\<close>

lemma tickNodes_quiet:
  "(\<And>i n. i \<in> set ids \<Longrightarrow> tcNodes tc i = Some n \<Longrightarrow> Step Tick tick n = Inr n) \<Longrightarrow> tickNodes ids tick tc = Inr tc"
proof (induction ids)
  case (Cons i ids)
  show ?case
  proof (cases "tcNodes tc i")
    case (Some n)
    then have "tc\<lparr>tcNodes := (tcNodes tc)(i \<mapsto> n)\<rparr> = tc" by (simp add: fun_upd_idem)
    moreover have "Step Tick tick n = Inr n" using Cons.prems [of i n] Some by simp
    moreover have "tickNodes ids tick tc = Inr tc" by (rule Cons.IH) (use Cons.prems in auto)
    ultimately show ?thesis using Some by simp
  qed (use Cons in auto)
qed simp

lemma tickNodes_one:
  assumes "\<And>i n. i \<in> set ids \<Longrightarrow> i \<noteq> l \<Longrightarrow> tcNodes tc i = Some n \<Longrightarrow> Step Tick tick n = Inr n"
    and "distinct ids" "l \<in> set ids" "tcNodes tc l = Some n" "Step Tick tick n = Inr n'"
  shows "tickNodes ids tick tc = Inr (tc\<lparr>tcNodes := (tcNodes tc)(l \<mapsto> n')\<rparr>)"
  using assms
proof (induction ids)
  case (Cons i ids)
  show ?case
  proof (cases "i = l")
    case True
    have "tickNodes ids tick (tc\<lparr>tcNodes := (tcNodes tc)(l \<mapsto> n')\<rparr>) = Inr (tc\<lparr>tcNodes := (tcNodes tc)(l \<mapsto> n')\<rparr>)"
      using Cons.prems(1,2) True by (intro tickNodes_quiet) (auto split: if_splits)
    then show ?thesis using True Cons.prems(4,5) by (simp del: fun_upd_apply)
  next
    case False
    show ?thesis
    proof (cases "tcNodes tc i")
      case (Some x)
      then have "tc\<lparr>tcNodes := (tcNodes tc)(i \<mapsto> x)\<rparr> = tc" by (simp add: fun_upd_idem)
      moreover have "Step Tick tick x = Inr x" using Cons.prems(1) [of i x] Some False by simp
      moreover have "tickNodes ids tick tc = Inr (tc\<lparr>tcNodes := (tcNodes tc)(l \<mapsto> n')\<rparr>)"
        by (rule Cons.IH) (use Cons.prems False in auto)
      ultimately show ?thesis using Some False by (simp del: fun_upd_apply)
    qed (use Cons False in auto)
  qed
qed simp

lemma NewNode_waits:
  assumes "in_i64 tick" "tick < e"
  shows "Step Tick tick (NewNode i ps e h) = Inr (NewNode i ps e h)"
  using assms by (simp add: Step_def handleTick_def NewNode_def i64_id)

lemma cleared_idle: "lowOutboxes 0 tc \<Longrightarrow> cleared tc = tc"
proof -
  assume "lowOutboxes 0 tc"
  then have "ClearOutbox n = n" if "tcNodes tc i = Some n" for i n
    using that by (simp add: lowOutboxes_def ClearOutbox_def)
  then have "map_option ClearOutbox (tcNodes tc i) = tcNodes tc i" for i
    by (cases "tcNodes tc i") auto
  then show ?thesis by (simp add: cleared_def)
qed

text \<open>Before the shortest timeout a tick changes nothing.\<close>

lemma clusterTick_quiet:
  assumes "\<And>k. validOrder (orders k) tc" "lowOutboxes 0 tc"
    and "\<And>i n. tcNodes tc i = Some n \<Longrightarrow> Step Tick tick n = Inr n"
  shows "clusterTick orders tick tc = Some (Inr tc)"
proof -
  obtain ms where ms: "collectOutboxMessages (orders 1) tc = (ms, tc)"
    "mset ms = mset (concat (map (outboxOf (tcNodes tc)) (orders 1)))"
    using collect_cleared [OF assms(1)] cleared_idle [OF assms(2)] by metis
  have "mset ms = inflight (tcNodes tc)"
    unfolding ms(2) using assms(1) [of 1] by (intro inflight_concat) (simp_all add: validOrder_def)
  then have "ms = []" by (simp add: inflight_low [OF assms(2)])
  moreover have "tickNodes (orders 0) tick tc = Inr tc" by (rule tickNodes_quiet) (rule assms(3))
  ultimately show ?thesis using ms(1) by (simp add: clusterTick_def drain.simps)
qed

text \<open>At the shortest timeout its node stands for election and wins.\<close>

lemma NewNode_stands:
  assumes "in_i64 e" "1 \<le> l" "l \<le> N" "N < 2 ^ 62"
  obtains n ms where "Step Tick e (NewNode l (peersOf N l) e h) = Inr n" "outbox n = ms"
    "chosen N l (mset ms) (ClearOutbox n)" "\<forall>m \<in> set ms. electionMessage N l m"
proof -
  let ?start = "NewNode l (peersOf N l) e h"
  have len: "length (peersOf N l) = nat (N - 1)" using length_peersOf assms(2,3) by blast
  show thesis
  proof (cases "N = 1")
    case True
    then have p: "peersOf N l = []" using len by simp
    have "Step Tick e ?start = Inr (?start\<lparr>lastHeartbeatReceivedAt := e, role := RoleLeader, nterm := 1,
        votedFor := l, votesReceived := 1, lastHeartbeatSentAt := e\<rparr>)"
      using assms(1) p by (simp add: Step_def handleTick_def NewNode_def i64_id becomeCandidate_def in_i64_def
          becomeLeader_def broadcastHeartbeats_def Let_def)
    then show thesis
      by (rule that [where ms = "[]"]) (simp_all add: NewNode_def chosen_def ClearOutbox_def p)
  next
    case False
    then have p: "peersOf N l \<noteq> []" using len assms(2,3) by auto
    let ?n = "?start\<lparr>lastHeartbeatReceivedAt := e, role := RoleCandidate, nterm := 1, votedFor := l, votesReceived := 1\<rparr>"
    have "Step Tick e ?start = Inr (?n\<lparr>outbox := voteRequests ?n\<rparr>)"
      using assms(1) p by (simp add: Step_def handleTick_def NewNode_def i64_id becomeCandidate_def in_i64_def
          Let_def appendVoteRequests_outbox voteRequests_def)
    note stands = this
    have all: "filter voting (voteRequests ?n) = voteRequests ?n"
      by (simp add: voteRequests_def voting_def filter_map comp_def)
    have "length (voteRequests ?n) = nat (N - 1)" using len by (simp add: voteRequests_def NewNode_def)
    then have "size (filter_mset voting (mset (voteRequests ?n))) = nat (N - 1)"
      unfolding mset_filter [symmetric] all by simp
    then have "chosen N l (mset (voteRequests ?n)) (ClearOutbox (?n\<lparr>outbox := voteRequests ?n\<rparr>))"
      using False assms(2,3) by (simp add: chosen_def NewNode_def ClearOutbox_def)
    moreover have "\<forall>m \<in> set (voteRequests ?n). electionMessage N l m"
      by (auto simp: voteRequests_def NewNode_def electionMessage_def set_peersOf)
    ultimately show thesis using that [OF stands] by simp
  qed
qed

text \<open>A new cluster in which node \<open>l\<close> has the shortest timeout.\<close>

definition shortest :: "int \<Rightarrow> int list \<Rightarrow> int \<Rightarrow> bool" where
  "shortest N electionTimeouts l \<longleftrightarrow> 1 \<le> l \<and> l \<le> N \<and> 0 \<le> timeoutOf electionTimeouts l \<and>
     list_all (\<lambda>i. i = l \<or> timeoutOf electionTimeouts l < timeoutOf electionTimeouts i) [1..N]"

lemma shortest_others:
  "shortest N electionTimeouts l \<Longrightarrow> 1 \<le> i \<Longrightarrow> i \<le> N \<Longrightarrow> i \<noteq> l \<Longrightarrow>
   timeoutOf electionTimeouts l < timeoutOf electionTimeouts i"
  by (auto simp: shortest_def list_all_iff)

lemma firstElection:
  assumes new: "NewTestCluster N electionTimeouts heartbeatI = Inr tc"
    and l: "shortest N electionTimeouts l" "in_i64 (timeoutOf electionTimeouts l)" "N < 2 ^ 62"
    and ok: "\<And>k. validOrder (orders k) tc"
  shows "\<exists>tc'. clusterTick orders (timeoutOf electionTimeouts l) tc = Some (Inr tc') \<and>
    openElection N l [] tc' \<and> lowOutboxes 0 tc' \<and> sameSettings tc tc'"
proof -
  let ?e = "timeoutOf electionTimeouts l"
  note tc = NewTestCluster_nodes [OF new]
  have lN: "1 \<le> l" "l \<le> N" using l(1) by (simp_all add: shortest_def)
  obtain n ms where n: "Step Tick ?e (NewNode l (peersOf N l) ?e heartbeatI) = Inr n" "outbox n = ms"
    "chosen N l (mset ms) (ClearOutbox n)" "\<forall>m \<in> set ms. electionMessage N l m"
    using NewNode_stands [OF l(2) lN l(3)] .
  let ?tc = "tc\<lparr>tcNodes := (tcNodes tc)(l \<mapsto> n)\<rparr>"
  have dom: "dom (tcNodes tc) = {1..N}" by (auto simp: tc(1) split: if_splits)
  have quiet: "Step Tick ?e x = Inr x" if "i \<noteq> l" "tcNodes tc i = Some x" for i x
    using that shortest_others [OF l(1)] NewNode_waits [OF l(2)] by (auto simp: tc(1) split: if_splits)
  have "tickNodes (orders 0) ?e tc = Inr ?tc"
    by (rule tickNodes_one [OF quiet]) (use ok [of 0] dom lN n(1) tc(1) in \<open>auto simp: validOrder_def\<close>)
  note ticked = this tickNodes_keeps [OF this]
  have low: "lowOutboxes 0 tc" by (simp add: lowOutboxes_def tc(1) NewNode_def)
  have abs: "absOf ?tc [] = (absOf tc [])\<lparr>nodes := (nodes (absOf tc []))(l \<mapsto> ClearOutbox n), net := mset ms\<rparr>"
    using absOf_put [of tc l "NewNode l (peersOf N l) ?e heartbeatI" n ms "[]"] dom lN n(2) inflight_low [OF low]
    by (simp add: tc(1) NewNode_def)
  have "voter N l j x" if "nodes (absOf tc []) j = Some x" "j \<noteq> l" for j x
    using that by (auto simp: tc(1) voter_def NewNode_def ClearOutbox_def split: if_splits)
  moreover have "dom (nodes (absOf tc [])) = {1..N}" using dom by (auto simp: dom_def)
  ultimately have "electing N l (absOf ?tc [])"
    using lN l(3) n(3,4) unfolding abs by (auto simp: electing_def)
  then have e: "openElection N l [] ?tc" using tc by (simp add: openElection_def)
  have ok1: "validOrder (orders k) ?tc" for k by (simp add: ok sameSettings_order [OF ticked(2)])
  then have ok2: "validOrder (orders k) (cleared ?tc)" for k
    by (simp add: sameSettings_order [OF sameSettings_cleared])
  obtain ms1 where ms1: "collectOutboxMessages (orders 1) ?tc = (ms1, cleared ?tc)"
    using collect_cleared [OF ok1] by blast
  obtain tc' where "drain orders ?e 2 ms1 (cleared ?tc) = Some (Inr tc')"
    "openElection N l [] tc'" "lowOutboxes 0 tc'" "sameSettings (cleared ?tc) tc'"
    using election.drain_inv [of orders "cleared ?tc" ms1 4 N l ?e 2] ok2 lowOutboxes_cleared
      election.collect_inv [OF e ok1 ms1] by auto
  moreover have "sameSettings tc (cleared ?tc)"
    using ticked(2) sameSettings_cleared sameSettings_trans by blast
  ultimately show ?thesis
    using ticked(1) ms1 sameSettings_trans by (auto simp: clusterTick_def)
qed

lemma getLeader_none:
  "(\<And>i n. tcNodes tc i = Some n \<Longrightarrow> role n \<noteq> RoleLeader) \<Longrightarrow> getLeader ids tc = 0"
  by (induction ids) (auto split: option.splits)

lemma getLeader_only:
  assumes "\<And>j n. tcNodes tc j = Some n \<Longrightarrow> j \<noteq> l \<Longrightarrow> role n \<noteq> RoleLeader"
    and "tcNodes tc l = Some n" "role n = RoleLeader" "nid n = l" "l \<in> set ids"
  shows "getLeader ids tc = l"
  using assms(5)
proof (induction ids)
  case (Cons i ids)
  then show ?case using assms(1-4) by (cases "i = l") (auto split: option.splits)
qed simp

lemma waitFrom_reaches:
  assumes new: "NewTestCluster N electionTimeouts heartbeatI = Inr tc"
    and l: "shortest N electionTimeouts l" "in_i64 (timeoutOf electionTimeouts l)" "N < 2 ^ 62"
    and ok: "\<And>t k. validOrder (sched t k) tc" "\<And>t. validOrder (look t) tc"
    and t: "0 \<le> tick" "tick \<le> timeoutOf electionTimeouts l" "timeoutOf electionTimeouts l < timeout"
  shows "\<exists>tc'. waitFrom sched look timeout tick tc = Some (Inr (l, timeoutOf electionTimeouts l, tc')) \<and>
    harnessLeads tc' l 1"
  using t
proof (induction "nat (timeoutOf electionTimeouts l - tick)" arbitrary: tick)
  case 0
  then have tick: "tick = timeoutOf electionTimeouts l" by simp
  obtain tc' where tc': "clusterTick (sched tick) tick tc = Some (Inr tc')" "openElection N l [] tc'"
    "lowOutboxes 0 tc'" "sameSettings tc tc'"
    using firstElection [OF new l, of "sched tick"] ok(1) tick by blast
  obtain n where n: "tcNodes tc' l = Some n" "nid n = l" "role n = RoleLeader" "nterm n = 1"
    using election_won(1) [OF tc'(2,3)] by blast
  have "l \<in> set (look tick)" "l \<noteq> 0"
    using ok(2) [of tick] n(1) tc'(4) l(1) by (auto simp: validOrder_def sameSettings_def shortest_def)
  moreover have "role x \<noteq> RoleLeader" if "tcNodes tc' j = Some x" "j \<noteq> l" for j x
    using election_won(2) [OF tc'(2,3) that] by simp
  ultimately have "getLeader (look tick) tc' = l" using n by (intro getLeader_only [of tc' l n]) auto
  then have "waitFrom sched look timeout tick tc = Some (Inr (l, tick, tc'))"
    using tc'(1) \<open>l \<noteq> 0\<close> by (simp add: waitFrom.simps [of _ _ _ tick])
  then show ?case using tick n by (simp add: harnessLeads_def GetRole_def GetTerm_def)
next
  case (Suc d)
  note tc = NewTestCluster_nodes(1) [OF new]
  have tick: "tick < timeoutOf electionTimeouts l" using Suc.hyps(2) by simp
  have "in_i64 tick" using tick Suc.prems(1) l(2) by (simp add: in_i64_def)
  have "Step Tick tick x = Inr x" if "tcNodes tc i = Some x" for i x
  proof -
    have "tick < timeoutOf electionTimeouts i"
      using that tick shortest_others [OF l(1), of i] by (cases "i = l") (auto simp: tc split: if_splits)
    then show ?thesis
      using that NewNode_waits [OF \<open>in_i64 tick\<close>] by (auto simp: tc split: if_splits)
  qed
  then have "clusterTick (sched tick) tick tc = Some (Inr tc)"
    using ok(1) by (intro clusterTick_quiet) (auto simp: lowOutboxes_def tc NewNode_def split: if_splits)
  moreover have "getLeader (look tick) tc = 0"
    by (rule getLeader_none) (auto simp: tc NewNode_def split: if_splits)
  moreover have "\<exists>tc'. waitFrom sched look timeout (tick + 1) tc =
      Some (Inr (l, timeoutOf electionTimeouts l, tc')) \<and> harnessLeads tc' l 1"
    using Suc.hyps(2) Suc.prems tick by (intro Suc.hyps(1)) auto
  ultimately show ?case using tick Suc.prems(3) by (simp add: waitFrom.simps [of _ _ _ tick])
qed

text \<open>
  C3: Elections succeed. In a new test cluster of any size in which one node has a shorter election
  timeout than all others, and no message is dropped, \<open>WaitForLeader\<close> returns that node, at the
  tick of its election timeout and as leader of term 1, whatever the orders in which the nodes
  are visited and the messages collected.
\<close>

theorem shortest_timeout_leads:
  assumes "NewTestCluster N electionTimeouts heartbeatI = Inr tc" "N < 2 ^ 62"
    and "shortest N electionTimeouts l" "in_i64 (timeoutOf electionTimeouts l)"
    and "timeoutOf electionTimeouts l < timeout"
    and "\<And>t k. validOrder (sched t k) tc" "\<And>t. validOrder (look t) tc"
  shows "\<exists>tc'. WaitForLeader sched look timeout tc = Some (Inr (l, timeoutOf electionTimeouts l, tc')) \<and>
    GetRole l tc' = RoleLeader \<and> GetTerm l tc' = Inr 1"
proof -
  have "0 \<le> timeoutOf electionTimeouts l" using assms(3) by (simp add: shortest_def)
  with waitFrom_reaches [OF assms(1,3,4,2,6,7) order_refl _ assms(5)] show ?thesis
    by (simp add: WaitForLeader_def harnessLeads_def)
qed

theorem shortest_timeout_leads_witness:
  "\<exists>tc'. WaitForLeader (\<lambda>_ _. [2, 3, 1]) (\<lambda>_. [2, 3, 1]) 50 demoCluster = Some (Inr (1, 10, tc')) \<and>
    GetRole 1 tc' = RoleLeader \<and> GetTerm 1 tc' = Inr 1"
proof -
  have "shortest 3 [10, 20, 30] 1" by code_simp
  moreover have "timeoutOf [10, 20, 30] 1 = 10" by (simp add: timeoutOf_def)
  ultimately show ?thesis
    using shortest_timeout_leads [OF demoCluster_new, of 1 50 "\<lambda>_ _. [2, 3, 1]" "\<lambda>_. [2, 3, 1]"] demoCluster_order
    by (simp add: in_i64_def)
qed

end
