(* ===== verification/Strconv.thy ===== *)
theory Strconv
  imports Prelude
begin

text \<open>
  The functions of Go's \<open>strconv\<close> and \<open>strings\<close> packages the program calls, over bytes:
  \<open>ParseInt\<close> and \<open>Atoi\<close> in base ten, and the splitting of a string at a separator.
\<close>

section \<open>Numbers\<close>

definition isDigit :: "char \<Rightarrow> bool" where
  "isDigit c \<longleftrightarrow> 48 \<le> (of_char c :: nat) \<and> (of_char c :: nat) \<le> 57"

fun parseDigits :: "nat \<Rightarrow> string \<Rightarrow> nat option" where
  "parseDigits acc [] = Some acc"
| "parseDigits acc (c # cs) =
     (if isDigit c then parseDigits (10 * acc + (of_char c - 48)) cs else None)"

text \<open>\<open>ParseInt(s, 10, 64)\<close>; \<open>None\<close> stands for a syntax or a range error.\<close>

definition parseInt :: "string \<Rightarrow> int option" where
  "parseInt s =
     (let (neg, ds) =
        (case s of
           [] \<Rightarrow> (False, [])
         | c # cs \<Rightarrow> if c = CHR ''-'' then (True, cs) else if c = CHR ''+'' then (False, cs) else (False, s))
      in if ds = [] then None
         else case parseDigits 0 ds of
             None \<Rightarrow> None
           | Some n \<Rightarrow>
               let i = (if neg then - int n else int n) in if in_i64 i then Some i else None)"

lemma parseDigits_append:
  "parseDigits a (xs @ ys) = (case parseDigits a xs of None \<Rightarrow> None | Some b \<Rightarrow> parseDigits b ys)"
  by (induction xs arbitrary: a) auto

lemma digit_char:
  assumes "d < 10"
  shows "isDigit (char_of (48 + d))" "of_char (char_of (48 + d :: nat)) = 48 + d"
proof -
  show "of_char (char_of (48 + d :: nat)) = 48 + d" using assms by (simp add: of_char_of)
  then show "isDigit (char_of (48 + d))" using assms by (simp add: isDigit_def)
qed

lemma parseDigits_digits: "parseDigits 0 (digits n) = Some n"
proof (induction n rule: digits.induct)
  case (1 n)
  show ?case
  proof (cases "n < 10")
    case True
    then show ?thesis by (simp add: digits.simps [of n] digit_char)
  next
    case False
    have "n mod 10 < 10" by simp
    with 1 [OF False] False show ?thesis
      by (subst digits.simps) (simp only: parseDigits_append if_False option.case parseDigits.simps
          digit_char if_True diff_add_inverse, simp)
  qed
qed

lemma digits_first: "\<exists>c cs. digits n = c # cs \<and> isDigit c"
proof (induction n rule: digits.induct)
  case (1 n)
  show ?case
  proof (cases "n < 10")
    case True
    then show ?thesis using digit_char(1) by (subst digits.simps) simp
  next
    case False
    from 1 [OF False] False show ?thesis by (subst digits.simps) auto
  qed
qed

lemma isDigit_sign [simp]: "\<not> isDigit CHR ''-''" "\<not> isDigit CHR ''+''"
  by code_simp+

text \<open>Printing and parsing an \<open>int64\<close> are inverse.\<close>

lemma parseInt_itoa:
  assumes "in_i64 i"
  shows "parseInt (itoa i) = Some i"
proof (cases "i < 0")
  case True
  have "digits (nat (- i)) \<noteq> []" using digits_first [of "nat (- i)"] by auto
  with True assms show ?thesis by (simp add: parseInt_def itoa_def parseDigits_digits)
next
  case False
  obtain c cs where d: "digits (nat i) = c # cs" "isDigit c" using digits_first by blast
  then have "c \<noteq> CHR ''-''" "c \<noteq> CHR ''+''" by auto
  moreover have "parseDigits 0 (c # cs) = Some (nat i)" using parseDigits_digits d(1) by metis
  ultimately show ?thesis using False assms d(1)
    by (simp add: parseInt_def itoa_def del: parseDigits.simps)
qed


section \<open>Atoi with its value on errors\<close>

text \<open>
  \<open>Atoi\<close> returns a value together with the error: zero for a syntax error, the nearest bound for
  a range error. \<open>ParseUint\<close> stops at the first digit that overflows 64 bits, before it sees the
  rest of the string.
\<close>

datatype numError = ErrSyntax | ErrRange

fun parseUint :: "nat \<Rightarrow> string \<Rightarrow> numError + nat" where
  "parseUint acc [] = Inr acc"
| "parseUint acc (c # cs) =
     (if \<not> isDigit c then Inl ErrSyntax
      else let v = 10 * acc + (of_char c - 48)
           in if v > 2 ^ 64 - 1 then Inl ErrRange else parseUint v cs)"

definition atoi :: "string \<Rightarrow> int \<times> numError option" where
  "atoi s =
     (let (neg, ds) =
        (case s of
           [] \<Rightarrow> (False, [])
         | c # cs \<Rightarrow> if c = CHR ''-'' then (True, cs) else if c = CHR ''+'' then (False, cs) else (False, s))
      in if ds = [] then (0, Some ErrSyntax)
         else
           let clamp = (if neg then - (2 ^ 63) else 2 ^ 63 - 1)
           in case parseUint 0 ds of
               Inl ErrSyntax \<Rightarrow> (0, Some ErrSyntax)
             | Inl ErrRange \<Rightarrow> (clamp, Some ErrRange)
             | Inr n \<Rightarrow>
                 let i = (if neg then - int n else int n)
                 in if in_i64 i then (i, None) else (clamp, Some ErrRange))"

lemma parseDigits_mono: "parseDigits a ds = Some n \<Longrightarrow> a \<le> n"
  by (induction ds arbitrary: a) (fastforce split: if_splits)+

lemma parseUint_parseDigits:
  assumes "parseDigits a ds = Some n" "n \<le> 2 ^ 64 - 1"
  shows "parseUint a ds = Inr n"
  using assms
proof (induction ds arbitrary: a)
  case (Cons c ds)
  let ?v = "10 * a + (of_char c - 48)"
  have "isDigit c" "parseDigits ?v ds = Some n" using Cons.prems(1) by (auto split: if_splits)
  with parseDigits_mono [OF this(2)] Cons show ?case by (simp add: Let_def)
qed simp

text \<open>The two parsers agree on what they accept.\<close>

lemma atoi_parseInt: "parseInt s = Some i \<Longrightarrow> atoi s = (i, None)"
proof -
  assume p: "parseInt s = Some i"
  obtain neg ds where nd: "(case s of [] \<Rightarrow> (False, []) | c # cs \<Rightarrow>
      if c = CHR ''-'' then (True, cs) else if c = CHR ''+'' then (False, cs) else (False, s)) = (neg, ds)"
    by force
  with p obtain n where n: "ds \<noteq> []" "parseDigits 0 ds = Some n"
    "i = (if neg then - int n else int n)" "in_i64 i"
    by (auto simp: parseInt_def Let_def split: if_splits option.splits)
  then have "n \<le> 2 ^ 64 - 1" by (auto simp: in_i64_def split: if_splits)
  with n nd show ?thesis by (simp add: atoi_def parseUint_parseDigits)
qed

lemma atoi_itoa: "in_i64 i \<Longrightarrow> atoi (itoa i) = (i, None)"
  by (simp add: atoi_parseInt parseInt_itoa)

lemma itoa_nonempty: "itoa i \<noteq> []"
  using digits_first [of "nat i"] by (auto simp: itoa_def)

section \<open>Letters\<close>

text \<open>\<open>strings.ToUpper\<close> and \<open>strings.ToLower\<close> on an ASCII letter.\<close>

definition toUpper :: "char \<Rightarrow> char" where
  "toUpper c = (let n = of_char c :: nat in if 97 \<le> n \<and> n \<le> 122 then char_of (n - 32) else c)"

definition toLower :: "char \<Rightarrow> char" where
  "toLower c = (let n = of_char c :: nat in if 65 \<le> n \<and> n \<le> 90 then char_of (n + 32) else c)"

lemma toUpper_idem [simp]: "toUpper (toUpper c) = toUpper c"
  by (auto simp: toUpper_def Let_def of_char_of)

lemma toLower_idem [simp]: "toLower (toLower c) = toLower c"
  by (auto simp: toLower_def Let_def of_char_of)

end
