(* ===== verification/Raft_Process.thy ===== *)
theory Raft_Process
  imports Raft_Cluster Strconv
begin

text \<open>
  The start of a Raft process, \<open>main\<close> of \<open>src/cmd/raft/main.go\<close>: the environment variables, the
  construction of the node, the timer and the sending of messages to peers. The environment is a
  function from names to values, the empty string for a variable that is not set. The HTTP
  client and the router are not modelled.
\<close>

section \<open>The environment\<close>

datatype envError = NotSetErr string | NumErr numError

definition getEnvAsInt :: "(string \<Rightarrow> string) \<Rightarrow> string \<Rightarrow> int \<times> envError option" where
  "getEnvAsInt getenv key =
     (let env = getenv key
      in if env = '''' then (0, Some (NotSetErr key))
         else let (i, e) = atoi env in (i, map_option NumErr e))"

definition getEnvAsString :: "(string \<Rightarrow> string) \<Rightarrow> string \<Rightarrow> string \<times> envError option" where
  "getEnvAsString getenv key =
     (let env = getenv key in if env = '''' then ('''', Some (NotSetErr key)) else (env, None))"

definition getEnvAsBoolWithDefault :: "(string \<Rightarrow> string) \<Rightarrow> string \<Rightarrow> bool \<Rightarrow> bool" where
  "getEnvAsBoolWithDefault getenv key defaultValue =
     (let env = getenv key in if env = '''' then defaultValue else map toLower env = ''true'')"

section \<open>Starting the node\<close>

definition urlKey :: "int \<Rightarrow> string" where
  "urlKey i = ''RAFT_NODE_'' @ itoa i @ ''_URL''"

text \<open>The loop over the node numbers: the URL of each and the list of peers, or a panic. The counter
  cannot wrap, since every number it passes has a variable of its own in the environment.\<close>

function readPeers ::
  "(string \<Rightarrow> string) \<Rightarrow> int \<Rightarrow> int \<Rightarrow> int \<Rightarrow> envError + ((int \<rightharpoonup> string) \<times> int list)" where
  "readPeers getenv nodeId nodeCount i =
     (if i \<le> nodeCount then
        (case getEnvAsString getenv (urlKey i) of
           (_, Some err) \<Rightarrow> Inl err
         | (url, None) \<Rightarrow>
             bind_res (readPeers getenv nodeId nodeCount (i + 1)) (\<lambda>(urls, peers).
               Inr (urls(i \<mapsto> url), if i \<noteq> nodeId then i # peers else peers)))
      else Inr (Map.empty, []))"
  by auto
termination
  by (relation "measure (\<lambda>(_, _, nodeCount, i). nat (nodeCount + 1 - i))") auto

declare readPeers.simps [simp del]

record process =
  pNode :: node
  pURLs :: "int \<rightharpoonup> string"
  pTick :: int

text \<open>
  \<open>main\<close> up to the start of the goroutines; \<open>Inl\<close> is a panic with the error. The error of
  \<open>RAFT_NODE_COUNT\<close> is not looked at.
\<close>

definition startProcess :: "(string \<Rightarrow> string) \<Rightarrow> envError + process" where
  "startProcess getenv =
     (case getEnvAsInt getenv ''RAFT_NODE_ID'' of
        (_, Some err) \<Rightarrow> Inl err
      | (nodeId, None) \<Rightarrow>
          let nodeCount = fst (getEnvAsInt getenv ''RAFT_NODE_COUNT'')
          in bind_res (readPeers getenv nodeId nodeCount 1) (\<lambda>(urls, peers).
               case getEnvAsInt getenv ''RAFT_ELECTION_TIMEOUT'' of
                 (_, Some err) \<Rightarrow> Inl err
               | (electionT, None) \<Rightarrow>
                   (case getEnvAsInt getenv ''RAFT_HEARTBEAT_INTERVAL'' of
                      (_, Some err) \<Rightarrow> Inl err
                    | (heartbeatI, None) \<Rightarrow>
                        Inr \<lparr>pNode = NewNode nodeId peers electionT heartbeatI,
                             pURLs = urls, pTick = 0\<rparr>)))"

section \<open>Running\<close>

text \<open>One firing of the ticker: the clock advances and a tick goes to the inbox.\<close>

definition timerFires :: "process \<Rightarrow> process \<times> Event" where
  "timerFires p = (p\<lparr>pTick := i64 (pTick p + 10)\<rparr>, Tick)"

text \<open>One turn of the inbox loop: the messages handed to \<open>sendMessageToPeer\<close>, or a panic.\<close>

definition inboxTurn :: "Event \<Rightarrow> process \<Rightarrow> panic + (Message list \<times> process)" where
  "inboxTurn m p =
     bind_res (handleInbox m (pTick p) (pNode p)) (\<lambda>(ms, n). Inr (ms, p\<lparr>pNode := n\<rparr>))"

text \<open>
  \<open>sendMessageToPeer\<close>: the URL the message is posted to; a peer without an entry has the empty
  one. What goes wrong is only
  logged; marshalling and the HTTP client are parameters.
\<close>

definition peerURL :: "process \<Rightarrow> Message \<Rightarrow> string" where
  "peerURL p msg = (case pURLs p (To msg) of None \<Rightarrow> '''' | Some u \<Rightarrow> u) @ ''/rpc''"

datatype sendLog = MarshalFailed | PostFailed | BadStatus int

definition sendMessageToPeer ::
  "(Message \<Rightarrow> 'e + string) \<Rightarrow> (string \<Rightarrow> string \<Rightarrow> 'w \<Rightarrow> ('e + int) \<times> 'w) \<Rightarrow> process \<Rightarrow> Message \<Rightarrow> 'w \<Rightarrow>
     sendLog list \<times> 'w" where
  "sendMessageToPeer marshal post p msg w =
     (case marshal msg of
        Inl err \<Rightarrow> ([MarshalFailed], w)
      | Inr jsonBytes \<Rightarrow>
          (case post (peerURL p msg) jsonBytes w of
             (Inl err, w1) \<Rightarrow> ([PostFailed], w1)
           | (Inr status, w1) \<Rightarrow> (if status \<noteq> 200 then [BadStatus status] else [], w1)))"

section \<open>Lemmas\<close>

lemma getEnvAsInt_itoa: "getenv key = itoa i \<Longrightarrow> in_i64 i \<Longrightarrow> getEnvAsInt getenv key = (i, None)"
  by (simp add: getEnvAsInt_def itoa_nonempty atoi_itoa Let_def)

lemma readPeers_all:
  assumes "\<And>i. k \<le> i \<Longrightarrow> i \<le> N \<Longrightarrow> getenv (urlKey i) \<noteq> ''''"
  shows "readPeers getenv nodeId N k =
    Inr ((\<lambda>i. if k \<le> i \<and> i \<le> N then Some (getenv (urlKey i)) else None), filter (\<lambda>i. i \<noteq> nodeId) [k..N])"
  using assms
proof (induction getenv nodeId N k rule: readPeers.induct)
  case (1 getenv nodeId N i)
  show ?case
  proof (cases "i \<le> N")
    case True
    then have s: "getEnvAsString getenv (urlKey i) = (getenv (urlKey i), None)"
      using 1(2) [of i] by (simp add: getEnvAsString_def Let_def)
    have "readPeers getenv nodeId N (i + 1) =
      Inr ((\<lambda>j. if i + 1 \<le> j \<and> j \<le> N then Some (getenv (urlKey j)) else None), filter (\<lambda>j. j \<noteq> nodeId) [i + 1..N])"
      using 1(1) [OF True s [symmetric] refl] 1(2) by auto
    with True s show ?thesis
      by (subst readPeers.simps) (auto simp: upto_rec1 fun_eq_iff)
  next
    case False
    then show ?thesis by (subst readPeers.simps) (simp add: fun_eq_iff)
  qed
qed

section \<open>Properties\<close>

text \<open>The variables of a complete configuration of node \<open>i\<close> among \<open>N\<close>.\<close>

definition envFor :: "(string \<Rightarrow> string) \<Rightarrow> int \<Rightarrow> int \<Rightarrow> int \<Rightarrow> int \<Rightarrow> bool" where
  "envFor getenv i N e h \<longleftrightarrow>
     getenv ''RAFT_NODE_ID'' = itoa i \<and> getenv ''RAFT_NODE_COUNT'' = itoa N \<and>
     getenv ''RAFT_ELECTION_TIMEOUT'' = itoa e \<and> getenv ''RAFT_HEARTBEAT_INTERVAL'' = itoa h \<and>
     list_all (\<lambda>k. getenv (urlKey k) \<noteq> '''') [1..N]"

text \<open>
  C29: Processes that are configured completely form the cluster the safety theorems are about:
  with its number, the count, the timeouts and all URLs set, process \<open>i\<close> starts without a panic, its
  node is the one of \<open>initCluster\<close>, and it posts to the configured URL of every peer.
\<close>

theorem processes_form_cluster:
  assumes "envFor getenv i N (electionT i) (heartbeatI i)" "1 \<le> i" "i \<le> N"
    and "in_i64 N" "in_i64 (electionT i)" "in_i64 (heartbeatI i)"
  shows "\<exists>p. startProcess getenv = Inr p \<and> nodes (initCluster N electionT heartbeatI) i = Some (pNode p) \<and>
    (\<forall>m. To m \<in> set (peerIDs (pNode p)) \<longrightarrow> peerURL p m = getenv (urlKey (To m)) @ ''/rpc'')"
proof -
  have i: "in_i64 i" using assms(2-4) by (auto simp: in_i64_def)
  have env: "getEnvAsInt getenv ''RAFT_NODE_ID'' = (i, None)" "getEnvAsInt getenv ''RAFT_NODE_COUNT'' = (N, None)"
    "getEnvAsInt getenv ''RAFT_ELECTION_TIMEOUT'' = (electionT i, None)"
    "getEnvAsInt getenv ''RAFT_HEARTBEAT_INTERVAL'' = (heartbeatI i, None)"
    using assms(1,4-6) i by (simp_all add: envFor_def getEnvAsInt_itoa)
  have urls: "readPeers getenv i N 1 =
      Inr ((\<lambda>k. if 1 \<le> k \<and> k \<le> N then Some (getenv (urlKey k)) else None), peersOf N i)"
    using assms(1) unfolding peersOf_def by (subst readPeers_all) (auto simp: envFor_def list_all_iff)
  then show ?thesis
    using env assms(2,3) unfolding startProcess_def
    by (auto simp: Let_def NewNode_def initCluster_def peerURL_def peersOf_def)
qed

definition demoGetenv :: "string \<Rightarrow> string" where
  "demoGetenv k = (if k = ''RAFT_NODE_ID'' then ''2'' else if k = ''RAFT_NODE_COUNT'' then ''3''
     else if k = ''RAFT_ELECTION_TIMEOUT'' then ''3000'' else if k = ''RAFT_HEARTBEAT_INTERVAL'' then ''500''
     else ''http://node'')"

theorem processes_form_cluster_witness:
  "\<exists>p. startProcess demoGetenv = Inr p \<and>
     nodes (initCluster 3 (\<lambda>_. 3000) (\<lambda>_. 500)) 2 = Some (pNode p) \<and> peerIDs (pNode p) = [1, 3]"
proof -
  have "envFor demoGetenv 2 3 3000 500" by code_simp
  from processes_form_cluster [of demoGetenv 2 3 "\<lambda>_. 3000" "\<lambda>_. 500", OF this]
  obtain p where p: "startProcess demoGetenv = Inr p"
    "nodes (initCluster 3 (\<lambda>_. 3000) (\<lambda>_. 500)) 2 = Some (pNode p)" by (auto simp: in_i64_def)
  from p(2) have "pNode p = NewNode 2 (peersOf 3 2) 3000 500" by (simp add: initCluster_def)
  moreover have "peersOf 3 2 = [1, 3]" by code_simp
  ultimately show ?thesis using p by (auto simp: NewNode_def)
qed

text \<open>
  A process whose \<open>RAFT_NODE_COUNT\<close> is missing starts all the same, without peers, and makes
  itself leader of term 1 at its first election timeout, with no vote of any other node.
\<close>

theorem missing_count_leads_alone:
  assumes "getenv ''RAFT_NODE_ID'' = itoa i" "getenv ''RAFT_NODE_COUNT'' = ''''"
    and "getenv ''RAFT_ELECTION_TIMEOUT'' = itoa e" "getenv ''RAFT_HEARTBEAT_INTERVAL'' = itoa h"
    and "in_i64 i" "in_i64 e" "in_i64 h" "in_i64 tick" "e \<le> tick"
  shows "\<exists>p n. startProcess getenv = Inr p \<and> peerIDs (pNode p) = [] \<and>
    handleInbox Tick tick (pNode p) = Inr ([], n) \<and> role n = RoleLeader \<and> nterm n = 1"
proof -
  have env: "getEnvAsInt getenv ''RAFT_NODE_ID'' = (i, None)"
    "fst (getEnvAsInt getenv ''RAFT_NODE_COUNT'') = 0"
    "getEnvAsInt getenv ''RAFT_ELECTION_TIMEOUT'' = (e, None)"
    "getEnvAsInt getenv ''RAFT_HEARTBEAT_INTERVAL'' = (h, None)"
    using assms(1-7) by (simp_all add: getEnvAsInt_itoa) (simp add: getEnvAsInt_def)
  have "readPeers getenv i 0 1 = Inr (Map.empty, [])" by (subst readPeers.simps) simp
  then have "startProcess getenv = Inr \<lparr>pNode = NewNode i [] e h, pURLs = Map.empty, pTick = 0\<rparr>"
    using env by (simp add: startProcess_def)
  moreover have "\<exists>n. handleInbox Tick tick (NewNode i [] e h) = Inr ([], n) \<and> role n = RoleLeader \<and> nterm n = 1"
    using assms(8,9)
    by (simp add: handleInbox_def Step_def handleTick_def NewNode_def becomeCandidate_def becomeLeader_def
        broadcastHeartbeats_def Outbox_def ClearOutbox_def i64_id in_i64_def)
  ultimately show ?thesis by (auto simp: NewNode_def)
qed

theorem missing_count_leads_alone_witness:
  "\<exists>p n. startProcess (demoGetenv(''RAFT_NODE_COUNT'' := '''')) = Inr p \<and> peerIDs (pNode p) = [] \<and>
    handleInbox Tick 3000 (pNode p) = Inr ([], n) \<and> role n = RoleLeader \<and> nterm n = 1"
proof -
  have "itoa 2 = ''2''" "itoa 3000 = ''3000''" "itoa 500 = ''500''" by code_simp+
  then show ?thesis
    using missing_count_leads_alone [of "demoGetenv(''RAFT_NODE_COUNT'' := '''')" 2 3000 500 3000]
    by (simp add: demoGetenv_def in_i64_def)
qed

end
