(* ===== verification/Bank_Model.thy ===== *)
theory Bank_Model
  imports Prelude
begin

text \<open>
  The data of the bank: rows and identifiers (\<open>src/internal/bank/models.go\<close>), requests and
  responses (\<open>dto.go\<close>), error values (\<open>errors.go\<close>) and the identifier check of currencies.
  Instants of time are integers, microseconds as the database stores them; the code only stores
  and returns them.
\<close>

type_synonym Time = int

section \<open>Rows\<close>

record Currency =
  cID :: string
  cDecimals :: int

record Account =
  aID :: int
  aName :: string
  aCurrencyID :: string
  aCreatedAt :: Time

record Balance =
  bAccountID :: int
  bAmount :: int
  bUpdatedAt :: Time

record AccountInfo =
  iAccountID :: int
  iAccountName :: string
  iAccountCreatedAt :: Time
  iCurrencyID :: string
  iCurrencyDecimals :: int
  iBalanceAmount :: int
  iBalanceUpdatedAt :: Time

record IdempotencyKey =
  kKey :: string
  kCreatedAt :: Time

definition TxTypeDeposit :: int where "TxTypeDeposit = 1"
definition TxTypeWithdrawal :: int where "TxTypeWithdrawal = 2"
definition TxTypeTransfer :: int where "TxTypeTransfer = 3"

record Transaction =
  tID :: int
  tAccountID :: int
  tTxType :: int
  tAmount :: int
  tTimestamp :: Time
  tParentID :: "int option"

lemma row_eta [simp]:
  "\<lparr>aID = aID a, aName = aName a, aCurrencyID = aCurrencyID a, aCreatedAt = aCreatedAt a\<rparr> = a"
  "\<lparr>bAccountID = bAccountID b, bAmount = bAmount b, bUpdatedAt = bUpdatedAt b\<rparr> = b"
  "\<lparr>tID = tID t, tAccountID = tAccountID t, tTxType = tTxType t, tAmount = tAmount t,
    tTimestamp = tTimestamp t, tParentID = tParentID t\<rparr> = t"
  by simp_all

text \<open>\<open>CurrencyIdRegex\<close>, the pattern \<open>^[a-zA-Z0-9]+$\<close> over the bytes of the identifier.\<close>

definition alnum :: "char \<Rightarrow> bool" where
  "alnum c \<longleftrightarrow> (let n = of_char c :: nat in
     97 \<le> n \<and> n \<le> 122 \<or> 65 \<le> n \<and> n \<le> 90 \<or> 48 \<le> n \<and> n \<le> 57)"

definition CurrencyIdRegex :: "string \<Rightarrow> bool" where
  "CurrencyIdRegex s \<longleftrightarrow> s \<noteq> [] \<and> list_all alnum s"

section \<open>Requests and responses\<close>

record CreateCurrencyRequest =
  ccID :: string
  ccDecimals :: int

record CurrencyResponse =
  crID :: string
  crDecimals :: int

record GetCurrenciesResponse =
  gcCurrencies :: "CurrencyResponse list"

record CreateAccountRequest =
  caName :: string
  caCurrency :: string
  caIdempotencyKey :: string

record CreateAccountResponse =
  caID :: int

record GetAccountInfoResponse =
  gAccountID :: int
  gAccountName :: string
  gAccountCreatedAt :: Time
  gCurrencyID :: string
  gCurrencyDecimals :: int
  gBalanceAmount :: int
  gBalanceUpdatedAt :: Time

record GetAccountInfoRequest =
  giID :: int

record TransferRequest =
  trAccountIDFrom :: int
  trAccountIDTo :: int
  trAmount :: int
  trIdempotencyKey :: string

record TransferResponse =
  trFromBefore :: int
  trFromAfter :: int
  trToBefore :: int
  trToAfter :: int
  trTxTime :: Time

record DepositRequest =
  dpAccountID :: int
  dpAmount :: int
  dpIdempotencyKey :: string

record DepositResponse =
  dpBalanceBefore :: int
  dpBalanceAfter :: int
  dpTxTime :: Time

record WithdrawRequest =
  wdAccountID :: int
  wdAmount :: int
  wdIdempotencyKey :: string

record WithdrawResponse =
  wdBalanceBefore :: int
  wdBalanceAfter :: int
  wdTxTime :: Time

section \<open>Errors\<close>

text \<open>
  The sentinel errors of the package, pgx's \<open>ErrNoRows\<close>, an error of the server with its SQL
  state and text, any other error of the driver, the formatted error of a missing balance row, and errors
  wrapped by \<open>fmt.Errorf\<close> with the \<open>%w\<close> verb.
\<close>

datatype error =
    ErrInvalidCurrencyID
  | ErrInvalidCurrencyDecimals
  | ErrCurrencyAlreadyExists
  | ErrIdempotencyKeyExists
  | ErrTransferFromAccountNotFound
  | ErrTransferToAccountNotFound
  | ErrInsufficientBalance
  | ErrAccountNotFound
  | ErrInvalidTransactionAmount
  | ErrCurrencyNotFound
  | ErrAccountNameInvalid
  | ErrTransferCurrencyMismatch
  | ErrNoRows
  | PgError string string
  | DriverError string
  | ErrBalanceMissing int
  | Wrap string error

fun errors_Is :: "error \<Rightarrow> error \<Rightarrow> bool" where
  "errors_Is (Wrap s e) target = errors_Is e target"
| "errors_Is e target = (e = target)"

text \<open>\<open>errors.As\<close> with a \<open>*pgconn.PgError\<close>: the SQL state of the wrapped server error.\<close>

fun errors_As_PgError :: "error \<Rightarrow> string option" where
  "errors_As_PgError (Wrap s e) = errors_As_PgError e"
| "errors_As_PgError (PgError code msg) = Some code"
| "errors_As_PgError e = None"

definition PostgresErrorUniqueViolation :: string where
  "PostgresErrorUniqueViolation = ''23505''"

text \<open>\<open>err.Error()\<close>; the text of a driver error is what the driver made it.\<close>

fun errorText :: "error \<Rightarrow> string" where
  "errorText ErrInvalidCurrencyID = ''invalid currency ID''"
| "errorText ErrInvalidCurrencyDecimals = ''invalid currency decimals''"
| "errorText ErrCurrencyAlreadyExists = ''currency already exists''"
| "errorText ErrIdempotencyKeyExists = ''idempotency key already exists''"
| "errorText ErrTransferFromAccountNotFound = ''transfer from account not found''"
| "errorText ErrTransferToAccountNotFound = ''transfer to account not found''"
| "errorText ErrInsufficientBalance = ''insufficient balance''"
| "errorText ErrAccountNotFound = ''deposit account not found''"
| "errorText ErrInvalidTransactionAmount = ''invalid deposit amount''"
| "errorText ErrCurrencyNotFound = ''create account currency not found''"
| "errorText ErrAccountNameInvalid = ''account name invalid''"
| "errorText ErrTransferCurrencyMismatch = ''transfer currency mismatch''"
| "errorText ErrNoRows = ''no rows in result set''"
| "errorText (PgError code msg) = msg"
| "errorText (DriverError s) = s"
| "errorText (ErrBalanceMissing a) = ''cannot find balance for account '' @ itoa a"
| "errorText (Wrap s e) = s @ '': '' @ errorText e"

end
