(* ===== verification/Bank_Repo.thy ===== *)
theory Bank_Repo
  imports Bank_Model
begin

text \<open>
  The data access layer, \<open>src/internal/bank/repo.go\<close>: every function sends one SQL statement to
  a \<open>DBTX\<close> and decodes the answer. The driver and the server are not part of the repository;
  they are the parameter \<open>'w backend\<close>, and what the code relies on is the locale \<open>postgres\<close>.
\<close>

section \<open>The backend\<close>

datatype pgval = PInt int | PText string | PTime Time | PBool bool | PNull

text \<open>
  \<open>Exec\<close>, \<open>Query\<close> and \<open>QueryRow\<close> are the methods of \<open>DBTX\<close>; \<open>QueryRow\<close> includes reading the
  row, so an empty result is \<open>ErrNoRows\<close>. \<open>BeginTxFunc\<close> is pgx's function of that name: the
  closure's result is the list of variables it captures. \<open>NextID\<close> and \<open>NowUTC\<close> are the
  methods of the two providers, \<open>TimeNow\<close> the direct call of \<open>time.Now().UTC()\<close>.
\<close>

record 'w backend =
  Exec :: "string \<Rightarrow> pgval list \<Rightarrow> ('w, error, int) prog"
  Query :: "string \<Rightarrow> pgval list \<Rightarrow> ('w, error, pgval list list) prog"
  QueryRow :: "string \<Rightarrow> pgval list \<Rightarrow> ('w, error, pgval list) prog"
  BeginTxFunc :: "('w, error, int list) prog \<Rightarrow> ('w, error, int list) prog"
  NextID :: "'w \<Rightarrow> int \<times> 'w"
  NowUTC :: "'w \<Rightarrow> Time \<times> 'w"
  TimeNow :: "'w \<Rightarrow> Time \<times> 'w"

section \<open>The statements\<close>

definition sqlInsertCurrency :: string where
  "sqlInsertCurrency = ''INSERT INTO currencies (id, decimals) VALUES ($1, $2)''"

definition sqlGetCurrencies :: string where
  "sqlGetCurrencies = ''SELECT id, decimals FROM currencies''"

definition sqlCurrencyExists :: string where
  "sqlCurrencyExists = ''SELECT EXISTS(SELECT 1 FROM currencies WHERE id = $1)''"

definition sqlInsertAccount :: string where
  "sqlInsertAccount =
     ''INSERT INTO accounts (id, name, currency_id, created_at) VALUES ($1, $2, $3, $4)''"

definition sqlInsertZeroBalance :: string where
  "sqlInsertZeroBalance =
     ''INSERT INTO balances (account_id, Amount, updated_at) VALUES ($1, $2, $3)''"

text \<open>The lines of the raw string literal, each ended by a newline.\<close>

definition sqlAccountInfo :: string where
  "sqlAccountInfo =
     concat (map (\<lambda>l. l @ [CHR 0x0A])
       ['''',
        ''SELECT a.id          AS account_id,'',
        ''       a.name        AS account_name,'',
        ''       a.created_at  AS account_created_at,'',
        ''       a.currency_id AS currency_id,'',
        ''       c.decimals    AS currency_decimals,'',
        ''       b.Amount      AS balance_amount,'',
        CHR 0x09 # ''   b.updated_at  AS balance_updated_at'',
        ''FROM accounts a'',
        ''         JOIN balances b ON a.id = b.account_id'',
        ''         JOIN currencies c ON a.currency_id = c.id'',
        ''WHERE a.id = $1;''])"

definition sqlAccountCurrencyID :: string where
  "sqlAccountCurrencyID = ''SELECT currency_id FROM accounts WHERE id = $1''"

definition sqlInsertIdempotencyKey :: string where
  "sqlInsertIdempotencyKey =
     ''INSERT INTO idempotency_keys (key, created_at) VALUES ($1, $2) ON CONFLICT (key) DO NOTHING;''"

definition sqlBalanceWithLock :: string where
  "sqlBalanceWithLock =
     ''SELECT account_id, Amount, updated_at FROM balances WHERE account_id = $1 FOR UPDATE''"

definition sqlUpdateBalance :: string where
  "sqlUpdateBalance = ''UPDATE balances SET Amount = $1, updated_at = $2 WHERE account_id = $3''"

definition sqlInsertTransaction :: string where
  "sqlInsertTransaction =
     ''INSERT INTO transactions (id, account_id, tx_type, Amount, timestamp, parent_id) VALUES ($1, $2, $3, $4, $5, $6)''"

definition sqlTransactionsByAccountID :: string where
  "sqlTransactionsByAccountID =
     ''SELECT id, account_id, tx_type, amount, timestamp, parent_id FROM transactions WHERE account_id = $1''"

section \<open>Decoding rows\<close>

text \<open>
  \<open>pgx.RowToStructByName\<close> and \<open>Scan\<close> for the row types the code reads, the columns in the
  order of the \<open>SELECT\<close>. A row of another shape is an error of the driver.
\<close>

definition scanErr :: error where
  "scanErr = DriverError ''scan''"

fun scanInt :: "pgval \<Rightarrow> error + int" where
  "scanInt (PInt i) = Inr i"
| "scanInt _ = Inl scanErr"

fun scanText :: "pgval \<Rightarrow> error + string" where
  "scanText (PText s) = Inr s"
| "scanText _ = Inl scanErr"

fun scanTime :: "pgval \<Rightarrow> error + Time" where
  "scanTime (PTime t) = Inr t"
| "scanTime _ = Inl scanErr"

fun scanBool :: "pgval \<Rightarrow> error + bool" where
  "scanBool (PBool b) = Inr b"
| "scanBool _ = Inl scanErr"

fun scanOptInt :: "pgval \<Rightarrow> error + int option" where
  "scanOptInt PNull = Inr None"
| "scanOptInt (PInt i) = Inr (Some i)"
| "scanOptInt _ = Inl scanErr"

definition scanOne :: "(pgval \<Rightarrow> error + 'a) \<Rightarrow> pgval list \<Rightarrow> error + 'a" where
  "scanOne f row = (case row of [p] \<Rightarrow> f p | _ \<Rightarrow> Inl scanErr)"

definition rowToCurrency :: "pgval list \<Rightarrow> error + Currency" where
  "rowToCurrency row =
     (case row of
        [p1, p2] \<Rightarrow>
          bind_res (scanText p1) (\<lambda>i. bind_res (scanInt p2) (\<lambda>d. Inr \<lparr>cID = i, cDecimals = d\<rparr>))
      | _ \<Rightarrow> Inl scanErr)"

definition rowToBalance :: "pgval list \<Rightarrow> error + Balance" where
  "rowToBalance row =
     (case row of
        [p1, p2, p3] \<Rightarrow>
          bind_res (scanInt p1) (\<lambda>i. bind_res (scanInt p2) (\<lambda>a. bind_res (scanTime p3) (\<lambda>u.
            Inr \<lparr>bAccountID = i, bAmount = a, bUpdatedAt = u\<rparr>)))
      | _ \<Rightarrow> Inl scanErr)"

definition rowToAccountInfo :: "pgval list \<Rightarrow> error + AccountInfo" where
  "rowToAccountInfo row =
     (case row of
        [p1, p2, p3, p4, p5, p6, p7] \<Rightarrow>
          bind_res (scanInt p1) (\<lambda>i. bind_res (scanText p2) (\<lambda>n. bind_res (scanTime p3) (\<lambda>c.
          bind_res (scanText p4) (\<lambda>cu. bind_res (scanInt p5) (\<lambda>d. bind_res (scanInt p6) (\<lambda>a.
          bind_res (scanTime p7) (\<lambda>u.
            Inr \<lparr>iAccountID = i, iAccountName = n, iAccountCreatedAt = c, iCurrencyID = cu,
                 iCurrencyDecimals = d, iBalanceAmount = a, iBalanceUpdatedAt = u\<rparr>)))))))
      | _ \<Rightarrow> Inl scanErr)"

definition rowToTransaction :: "pgval list \<Rightarrow> error + Transaction" where
  "rowToTransaction row =
     (case row of
        [p1, p2, p3, p4, p5, p6] \<Rightarrow>
          bind_res (scanInt p1) (\<lambda>i. bind_res (scanInt p2) (\<lambda>a. bind_res (scanInt p3) (\<lambda>ty.
          bind_res (scanInt p4) (\<lambda>am. bind_res (scanTime p5) (\<lambda>ts. bind_res (scanOptInt p6) (\<lambda>par.
            Inr \<lparr>tID = i, tAccountID = a, tTxType = ty, tAmount = am,
                 tTimestamp = ts, tParentID = par\<rparr>))))))
      | _ \<Rightarrow> Inl scanErr)"

fun collectRows :: "(pgval list \<Rightarrow> error + 'a) \<Rightarrow> pgval list list \<Rightarrow> error + 'a list" where
  "collectRows f [] = Inr []"
| "collectRows f (r # rs) =
     bind_res (f r) (\<lambda>x. bind_res (collectRows f rs) (\<lambda>xs. Inr (x # xs)))"

definition fromRes :: "'e + 'a \<Rightarrow> ('w, 'e, 'a) prog" where
  "fromRes r w = (r, w)"

text \<open>\<open>pgx.CollectOneRow\<close>: the first row, \<open>ErrNoRows\<close> if there is none.\<close>

definition collectOneRow :: "(pgval list \<Rightarrow> error + 'a) \<Rightarrow> pgval list list \<Rightarrow> error + 'a" where
  "collectOneRow f rows = (case rows of [] \<Rightarrow> Inl ErrNoRows | r # _ \<Rightarrow> f r)"

section \<open>The functions of the repository\<close>

definition InsertCurrency :: "'w backend \<Rightarrow> Currency \<Rightarrow> ('w, error, unit) prog" where
  "InsertCurrency B c =
     bindp (Exec B sqlInsertCurrency [PText (cID c), PInt (cDecimals c)]) (\<lambda>_. returnp ())"

definition GetCurrencies :: "'w backend \<Rightarrow> ('w, error, Currency list) prog" where
  "GetCurrencies B =
     bindp (Query B sqlGetCurrencies []) (\<lambda>rows. fromRes (collectRows rowToCurrency rows))"

definition CurrencyExists :: "'w backend \<Rightarrow> string \<Rightarrow> ('w, error, bool) prog" where
  "CurrencyExists B i =
     bindp (QueryRow B sqlCurrencyExists [PText i])
       (\<lambda>row. fromRes (scanOne scanBool row))"

definition InsertAccount :: "'w backend \<Rightarrow> Account \<Rightarrow> ('w, error, unit) prog" where
  "InsertAccount B a =
     bindp (Exec B sqlInsertAccount
              [PInt (aID a), PText (aName a), PText (aCurrencyID a), PTime (aCreatedAt a)])
       (\<lambda>_. returnp ())"

definition InsertZeroBalance :: "'w backend \<Rightarrow> int \<Rightarrow> Time \<Rightarrow> ('w, error, unit) prog" where
  "InsertZeroBalance B accountID updatedAt =
     bindp (Exec B sqlInsertZeroBalance [PInt accountID, PInt 0, PTime updatedAt]) (\<lambda>_. returnp ())"

definition GetAccountInfoByID :: "'w backend \<Rightarrow> int \<Rightarrow> ('w, error, AccountInfo) prog" where
  "GetAccountInfoByID B i =
     bindp (Query B sqlAccountInfo [PInt i])
       (\<lambda>rows. fromRes (collectOneRow rowToAccountInfo rows))"

text \<open>The empty string stands for a missing account, as in the source.\<close>

definition GetAccountCurrencyID :: "'w backend \<Rightarrow> int \<Rightarrow> ('w, error, string) prog" where
  "GetAccountCurrencyID B accountID w =
     (case QueryRow B sqlAccountCurrencyID [PInt accountID] w of
        (Inl err, w1) \<Rightarrow> if errors_Is err ErrNoRows then (Inr '''', w1) else (Inl err, w1)
      | (Inr row, w1) \<Rightarrow> (scanOne scanText row, w1))"

definition InsertIdempotencyKey :: "'w backend \<Rightarrow> IdempotencyKey \<Rightarrow> ('w, error, int) prog" where
  "InsertIdempotencyKey B k =
     Exec B sqlInsertIdempotencyKey [PText (kKey k), PTime (kCreatedAt k)]"

text \<open>\<open>None\<close> is the nil pointer returned for a missing row.\<close>

definition GetBalanceWithLock :: "'w backend \<Rightarrow> int \<Rightarrow> ('w, error, Balance option) prog" where
  "GetBalanceWithLock B accountID w =
     (case QueryRow B sqlBalanceWithLock [PInt accountID] w of
        (Inl err, w1) \<Rightarrow> if errors_Is err ErrNoRows then (Inr None, w1) else (Inl err, w1)
      | (Inr row, w1) \<Rightarrow> (bind_res (rowToBalance row) (\<lambda>b. Inr (Some b)), w1))"

definition UpdateBalance :: "'w backend \<Rightarrow> Balance \<Rightarrow> ('w, error, unit) prog" where
  "UpdateBalance B b =
     bindp (Exec B sqlUpdateBalance [PInt (bAmount b), PTime (bUpdatedAt b), PInt (bAccountID b)])
       (\<lambda>_. returnp ())"

fun fromOptInt :: "int option \<Rightarrow> pgval" where
  "fromOptInt None = PNull"
| "fromOptInt (Some i) = PInt i"

definition InsertTransaction :: "'w backend \<Rightarrow> Transaction \<Rightarrow> ('w, error, unit) prog" where
  "InsertTransaction B t =
     bindp (Exec B sqlInsertTransaction
              [PInt (tID t), PInt (tAccountID t), PInt (tTxType t), PInt (tAmount t),
               PTime (tTimestamp t), fromOptInt (tParentID t)])
       (\<lambda>_. returnp ())"

definition GetTransactionsByAccountID :: "'w backend \<Rightarrow> int \<Rightarrow> ('w, error, Transaction list) prog" where
  "GetTransactionsByAccountID B accountID =
     bindp (Query B sqlTransactionsByAccountID [PInt accountID])
       (\<lambda>rows. fromRes (collectRows rowToTransaction rows))"

end
