(* ===== verification/Bank_Store.thy ===== *)
theory Bank_Store
  imports Bank_Repo
begin

text \<open>
  What the bank relies on of PostgreSQL and pgx. The tables are those the migrations create
  (\<open>src/internal/bank_migrations/migrations.go\<close>), with their primary keys as the domains of
  maps. The locale \<open>postgres\<close> gives the documented effect of each statement when it succeeds and
  says that a failed statement and a rolled-back transaction have none; any call may fail. The
  locale \<open>postgres_up\<close> adds that a statement whose arguments fit and whose constraints hold
  succeeds. Calls run one at a time: no other session writes between two statements.
\<close>

section \<open>The tables\<close>

record tables =
  currencies :: "string \<rightharpoonup> int"
  accounts :: "int \<rightharpoonup> Account"
  balances :: "int \<rightharpoonup> Balance"
  transactions :: "int \<rightharpoonup> Transaction"
  idempotency_keys :: "string \<rightharpoonup> Time"

definition emptyTables :: tables where
  "emptyTables = \<lparr>currencies = Map.empty, accounts = Map.empty, balances = Map.empty,
     transactions = Map.empty, idempotency_keys = Map.empty\<rparr>"

definition putCurrency :: "string \<Rightarrow> int \<Rightarrow> tables \<Rightarrow> tables" where
  "putCurrency i d T = T\<lparr>currencies := (currencies T)(i \<mapsto> d)\<rparr>"

definition putAccount :: "Account \<Rightarrow> tables \<Rightarrow> tables" where
  "putAccount a T = T\<lparr>accounts := (accounts T)(aID a \<mapsto> a)\<rparr>"

definition putBalance :: "Balance \<Rightarrow> tables \<Rightarrow> tables" where
  "putBalance b T = T\<lparr>balances := (balances T)(bAccountID b \<mapsto> b)\<rparr>"

definition putTransaction :: "Transaction \<Rightarrow> tables \<Rightarrow> tables" where
  "putTransaction t T = T\<lparr>transactions := (transactions T)(tID t \<mapsto> t)\<rparr>"

definition putKey :: "string \<Rightarrow> Time \<Rightarrow> tables \<Rightarrow> tables" where
  "putKey k u T = T\<lparr>idempotency_keys := (idempotency_keys T)(k \<mapsto> u)\<rparr>"

lemma put_simps [simp]:
  "currencies (putCurrency i d T) = (currencies T)(i \<mapsto> d)"
  "accounts (putCurrency i d T) = accounts T" "balances (putCurrency i d T) = balances T"
  "transactions (putCurrency i d T) = transactions T"
  "idempotency_keys (putCurrency i d T) = idempotency_keys T"
  "currencies (putAccount a T) = currencies T" "accounts (putAccount a T) = (accounts T)(aID a \<mapsto> a)"
  "balances (putAccount a T) = balances T" "transactions (putAccount a T) = transactions T"
  "idempotency_keys (putAccount a T) = idempotency_keys T"
  "currencies (putBalance b T) = currencies T" "accounts (putBalance b T) = accounts T"
  "balances (putBalance b T) = (balances T)(bAccountID b \<mapsto> b)"
  "transactions (putBalance b T) = transactions T"
  "idempotency_keys (putBalance b T) = idempotency_keys T"
  "currencies (putTransaction t T) = currencies T" "accounts (putTransaction t T) = accounts T"
  "balances (putTransaction t T) = balances T"
  "transactions (putTransaction t T) = (transactions T)(tID t \<mapsto> t)"
  "idempotency_keys (putTransaction t T) = idempotency_keys T"
  "currencies (putKey k u T) = currencies T" "accounts (putKey k u T) = accounts T"
  "balances (putKey k u T) = balances T" "transactions (putKey k u T) = transactions T"
  "idempotency_keys (putKey k u T) = (idempotency_keys T)(k \<mapsto> u)"
  by (simp_all add: putCurrency_def putAccount_def putBalance_def putTransaction_def putKey_def)

text \<open>Arguments the columns accept: \<open>INT\<close>, and text of non-zero ASCII bytes.\<close>

definition pg_int4 :: "int \<Rightarrow> bool" where
  "pg_int4 i \<longleftrightarrow> - (2 ^ 31) \<le> i \<and> i < 2 ^ 31"

definition pg_text :: "string \<Rightarrow> bool" where
  "pg_text s \<longleftrightarrow> list_all (\<lambda>c. (0::nat) < of_char c \<and> of_char c < (128::nat)) s"

section \<open>The interface\<close>

locale postgres =
  fixes B :: "'w backend" and tabs :: "'w \<Rightarrow> tables"
  assumes exec_failed: "Exec B sql args w = (Inl e, w') \<Longrightarrow> tabs w' = tabs w"
    and query_reads: "sql \<in> {sqlGetCurrencies, sqlAccountInfo, sqlTransactionsByAccountID} \<Longrightarrow>
      Query B sql args w = (rows, w') \<Longrightarrow> tabs w' = tabs w"
    and query_row_reads: "sql \<in> {sqlCurrencyExists, sqlAccountCurrencyID, sqlBalanceWithLock} \<Longrightarrow>
      QueryRow B sql args w = (res, w') \<Longrightarrow> tabs w' = tabs w"
    and next_id_reads: "tabs (snd (NextID B w)) = tabs w"
    and now_utc_reads: "tabs (snd (NowUTC B w)) = tabs w"
    and time_now_reads: "tabs (snd (TimeNow B w)) = tabs w"
    and insert_currency: "Exec B sqlInsertCurrency [PText cid, PInt d] w = (Inr n, w') \<Longrightarrow>
      currencies (tabs w) cid = None \<and> tabs w' = putCurrency cid d (tabs w)"
    and insert_currency_violation: "Exec B sqlInsertCurrency [PText cid, PInt d] w = (Inl e, w') \<Longrightarrow>
      errors_As_PgError e = Some ''23505'' \<Longrightarrow> currencies (tabs w) cid \<noteq> None"
    and insert_account: "Exec B sqlInsertAccount [PInt i, PText nm, PText cu, PTime c] w = (Inr n, w') \<Longrightarrow>
      accounts (tabs w) i = None \<and> currencies (tabs w) cu \<noteq> None \<and>
      tabs w' = putAccount \<lparr>aID = i, aName = nm, aCurrencyID = cu, aCreatedAt = c\<rparr> (tabs w)"
    and insert_balance: "Exec B sqlInsertZeroBalance [PInt i, PInt a, PTime u] w = (Inr n, w') \<Longrightarrow>
      balances (tabs w) i = None \<and> accounts (tabs w) i \<noteq> None \<and>
      tabs w' = putBalance \<lparr>bAccountID = i, bAmount = a, bUpdatedAt = u\<rparr> (tabs w)"
    and insert_key: "Exec B sqlInsertIdempotencyKey [PText k, PTime u] w = (Inr n, w') \<Longrightarrow>
      n = 0 \<and> idempotency_keys (tabs w) k \<noteq> None \<and> tabs w' = tabs w \<or>
      n = 1 \<and> idempotency_keys (tabs w) k = None \<and> tabs w' = putKey k u (tabs w)"
    and update_balance: "Exec B sqlUpdateBalance [PInt a, PTime u, PInt i] w = (Inr n, w') \<Longrightarrow>
      tabs w' = (if balances (tabs w) i = None then tabs w
                 else putBalance \<lparr>bAccountID = i, bAmount = a, bUpdatedAt = u\<rparr> (tabs w))"
    and insert_transaction:
      "Exec B sqlInsertTransaction [PInt i, PInt a, PInt ty, PInt am, PTime ts, fromOptInt par] w = (Inr n, w') \<Longrightarrow>
      transactions (tabs w) i = None \<and> accounts (tabs w) a \<noteq> None \<and>
      (\<forall>q. par = Some q \<longrightarrow> transactions (tabs w) q \<noteq> None) \<and>
      tabs w' = putTransaction \<lparr>tID = i, tAccountID = a, tTxType = ty, tAmount = am,
                                tTimestamp = ts, tParentID = par\<rparr> (tabs w)"
    and currency_exists: "QueryRow B sqlCurrencyExists [PText cid] w = (Inr row, w') \<Longrightarrow>
      row = [PBool (currencies (tabs w) cid \<noteq> None)]"
    and account_currency: "QueryRow B sqlAccountCurrencyID [PInt i] w = (Inr row, w') \<Longrightarrow>
      \<exists>a. accounts (tabs w) i = Some a \<and> row = [PText (aCurrencyID a)]"
    and account_currency_none: "QueryRow B sqlAccountCurrencyID [PInt i] w = (Inl e, w') \<Longrightarrow>
      errors_Is e ErrNoRows \<Longrightarrow> accounts (tabs w) i = None"
    and balance_row: "QueryRow B sqlBalanceWithLock [PInt i] w = (Inr row, w') \<Longrightarrow>
      \<exists>b. balances (tabs w) i = Some b \<and> row = [PInt i, PInt (bAmount b), PTime (bUpdatedAt b)]"
    and balance_row_none: "QueryRow B sqlBalanceWithLock [PInt i] w = (Inl e, w') \<Longrightarrow>
      errors_Is e ErrNoRows \<Longrightarrow> balances (tabs w) i = None"
    and begin_tx: "BeginTxFunc B f w = (r, w') \<Longrightarrow>
      (\<exists>e. r = Inl e) \<and> tabs w' = tabs w \<or>
      (\<exists>w1 x w2. tabs w1 = tabs w \<and> f w1 = (Inr x, w2) \<and> tabs w' = tabs w2 \<and>
         (r = Inr x \<or> (\<exists>e. r = Inl e)))"
begin

lemma InsertCurrency_effect:
  assumes "InsertCurrency B c w = (r, w')"
  shows "(\<exists>e. r = Inl e) \<and> tabs w' = tabs w \<or>
    r = Inr () \<and> currencies (tabs w) (cID c) = None \<and>
      tabs w' = putCurrency (cID c) (cDecimals c) (tabs w)"
  using assms unfolding InsertCurrency_def
  by (auto elim!: bindpE dest: exec_failed dest!: insert_currency)

lemma InsertAccount_effect:
  assumes "InsertAccount B a w = (r, w')"
  shows "(\<exists>e. r = Inl e) \<and> tabs w' = tabs w \<or>
    r = Inr () \<and> accounts (tabs w) (aID a) = None \<and> currencies (tabs w) (aCurrencyID a) \<noteq> None \<and>
      tabs w' = putAccount a (tabs w)"
  using assms unfolding InsertAccount_def
  by (auto elim!: bindpE dest: exec_failed dest!: insert_account)

lemma InsertZeroBalance_effect:
  assumes "InsertZeroBalance B i u w = (r, w')"
  shows "(\<exists>e. r = Inl e) \<and> tabs w' = tabs w \<or>
    r = Inr () \<and> balances (tabs w) i = None \<and> accounts (tabs w) i \<noteq> None \<and>
      tabs w' = putBalance \<lparr>bAccountID = i, bAmount = 0, bUpdatedAt = u\<rparr> (tabs w)"
  using assms unfolding InsertZeroBalance_def
  by (auto elim!: bindpE dest: exec_failed dest!: insert_balance)

lemma InsertIdempotencyKey_effect:
  assumes "InsertIdempotencyKey B k w = (r, w')"
  shows "(\<exists>e. r = Inl e) \<and> tabs w' = tabs w \<or>
    r = Inr 0 \<and> idempotency_keys (tabs w) (kKey k) \<noteq> None \<and> tabs w' = tabs w \<or>
    r = Inr 1 \<and> idempotency_keys (tabs w) (kKey k) = None \<and>
      tabs w' = putKey (kKey k) (kCreatedAt k) (tabs w)"
  using assms unfolding InsertIdempotencyKey_def
  by (cases r) (auto dest: exec_failed insert_key)

lemma GetBalanceWithLock_effect:
  assumes "GetBalanceWithLock B i w = (r, w')"
  shows "tabs w' = tabs w \<and>
    ((\<exists>e. r = Inl e) \<or> r = Inr None \<and> balances (tabs w) i = None \<or>
     (\<exists>b. balances (tabs w) i = Some b \<and>
        r = Inr (Some \<lparr>bAccountID = i, bAmount = bAmount b, bUpdatedAt = bUpdatedAt b\<rparr>)))"
  using assms query_row_reads [of sqlBalanceWithLock] unfolding GetBalanceWithLock_def
  by (auto split: prod.splits sum.splits if_splits simp: rowToBalance_def
      dest: balance_row balance_row_none)

lemma UpdateBalance_effect:
  assumes "UpdateBalance B b w = (r, w')"
  shows "(\<exists>e. r = Inl e) \<and> tabs w' = tabs w \<or>
    r = Inr () \<and> tabs w' = (if balances (tabs w) (bAccountID b) = None then tabs w
                             else putBalance b (tabs w))"
  using assms unfolding UpdateBalance_def
  by (auto elim!: bindpE dest: exec_failed dest!: update_balance)

lemma InsertTransaction_effect:
  assumes "InsertTransaction B t w = (r, w')"
  shows "(\<exists>e. r = Inl e) \<and> tabs w' = tabs w \<or>
    r = Inr () \<and> transactions (tabs w) (tID t) = None \<and> accounts (tabs w) (tAccountID t) \<noteq> None \<and>
      (\<forall>q. tParentID t = Some q \<longrightarrow> transactions (tabs w) q \<noteq> None) \<and>
      tabs w' = putTransaction t (tabs w)"
  using assms unfolding InsertTransaction_def
  by (auto elim!: bindpE dest: exec_failed dest!: insert_transaction)

lemma CurrencyExists_effect:
  assumes "CurrencyExists B i w = (r, w')"
  shows "tabs w' = tabs w \<and> ((\<exists>e. r = Inl e) \<or> r = Inr (currencies (tabs w) i \<noteq> None))"
  using assms query_row_reads [of sqlCurrencyExists] unfolding CurrencyExists_def
  by (auto elim!: bindpE simp: fromRes_def scanOne_def dest: currency_exists)

lemma GetAccountCurrencyID_effect:
  assumes "GetAccountCurrencyID B i w = (r, w')"
  shows "tabs w' = tabs w \<and>
    ((\<exists>e. r = Inl e) \<or> r = Inr '''' \<and> accounts (tabs w) i = None \<or>
     (\<exists>a. accounts (tabs w) i = Some a \<and> r = Inr (aCurrencyID a)))"
  using assms query_row_reads [of sqlAccountCurrencyID] unfolding GetAccountCurrencyID_def
  by (auto split: prod.splits sum.splits if_splits simp: scanOne_def
      dest: account_currency account_currency_none)

end

end
