(* ===== verification/Bank_Service.thy ===== *)
theory Bank_Service
  imports Bank_Store
begin

text \<open>
  The service layer, \<open>src/internal/bank/service.go\<close>: every method as a program over the
  backend, with the checks, the reads before the transaction, the closure run inside
  \<open>BeginTxFunc\<close> and the wrapping of errors in the order of the source. A closure returns the
  values of the variables it captures.
\<close>

section \<open>The methods of the service\<close>

abbreviation wrap :: "string \<Rightarrow> ('w, error, 'a) prog \<Rightarrow> ('w, error, 'a) prog" where
  "wrap msg \<equiv> on_err (Wrap msg)"

definition createCurrencyTx :: "'w backend \<Rightarrow> Currency \<Rightarrow> ('w, error, int list) prog" where
  "createCurrencyTx B currency =
     bindp
       (on_err
         (\<lambda>err. if errors_As_PgError err = Some PostgresErrorUniqueViolation
                then ErrCurrencyAlreadyExists
                else Wrap ''insert currency failed'' err)
         (InsertCurrency B currency))
       (\<lambda>_. returnp [])"

definition CreateCurrency :: "'w backend \<Rightarrow> CreateCurrencyRequest \<Rightarrow> ('w, error, unit) prog" where
  "CreateCurrency B request =
     (if \<not> CurrencyIdRegex (ccID request) then failp ErrInvalidCurrencyID
      else if ccDecimals request < 0 then failp ErrInvalidCurrencyDecimals
      else
        let currency = \<lparr>cID = ccID request, cDecimals = ccDecimals request\<rparr>
        in bindp (BeginTxFunc B (createCurrencyTx B currency)) (\<lambda>_. returnp ()))"

definition ServiceGetCurrencies :: "'w backend \<Rightarrow> ('w, error, GetCurrenciesResponse) prog" where
  "ServiceGetCurrencies B =
     bindp (wrap ''get currencies from DB failed'' (GetCurrencies B))
       (\<lambda>cs. returnp \<lparr>gcCurrencies = map (\<lambda>c. \<lparr>crID = cID c, crDecimals = cDecimals c\<rparr>) cs\<rparr>)"

definition createAccountTx :: "'w backend \<Rightarrow> CreateAccountRequest \<Rightarrow> Account \<Rightarrow> ('w, error, int list) prog" where
  "createAccountTx B request account =
     bindp (callp (TimeNow B)) (\<lambda>now.
     bindp (InsertIdempotencyKey B \<lparr>kKey = caIdempotencyKey request, kCreatedAt = now\<rparr>) (\<lambda>rowsChanged.
     if rowsChanged = 0 then failp ErrIdempotencyKeyExists
     else
       bindp (InsertAccount B account) (\<lambda>_.
       bindp (InsertZeroBalance B (aID account) (aCreatedAt account)) (\<lambda>_. returnp []))))"

definition CreateAccount ::
  "'w backend \<Rightarrow> CreateAccountRequest \<Rightarrow> ('w, error, CreateAccountResponse) prog" where
  "CreateAccount B request =
     (if caName request = '''' then failp ErrAccountNameInvalid
      else
        bindp (wrap ''create account check currency exists failed''
                 (CurrencyExists B (caCurrency request))) (\<lambda>exists.
        if \<not> exists then failp ErrCurrencyNotFound
        else
          bindp (callp (NextID B)) (\<lambda>i.
          bindp (callp (NowUTC B)) (\<lambda>now.
          let account = \<lparr>aID = i, aName = caName request, aCurrencyID = caCurrency request,
                         aCreatedAt = now\<rparr>
          in bindp (BeginTxFunc B (createAccountTx B request account)) (\<lambda>_.
             returnp \<lparr>caID = aID account\<rparr>)))))"

definition GetAccountInfo ::
  "'w backend \<Rightarrow> GetAccountInfoRequest \<Rightarrow> ('w, error, GetAccountInfoResponse) prog" where
  "GetAccountInfo B request =
     bindp
       (on_err (\<lambda>err. if errors_Is err ErrNoRows then ErrAccountNotFound else err)
         (GetAccountInfoByID B (giID request)))
       (\<lambda>info. returnp
         \<lparr>gAccountID = iAccountID info, gAccountName = iAccountName info,
          gAccountCreatedAt = iAccountCreatedAt info, gCurrencyID = iCurrencyID info,
          gCurrencyDecimals = iCurrencyDecimals info, gBalanceAmount = iBalanceAmount info,
          gBalanceUpdatedAt = iBalanceUpdatedAt info\<rparr>)"

definition depositTx :: "'w backend \<Rightarrow> DepositRequest \<Rightarrow> Time \<Rightarrow> ('w, error, int list) prog" where
  "depositTx B request utc =
     bindp (wrap ''deposit insert idempotency key failed''
              (InsertIdempotencyKey B \<lparr>kKey = dpIdempotencyKey request, kCreatedAt = utc\<rparr>)) (\<lambda>rowsChanged.
     if rowsChanged = 0 then failp ErrIdempotencyKeyExists
     else
       bindp (wrap ''deposit get balance failed'' (GetBalanceWithLock B (dpAccountID request))) (\<lambda>found.
       case found of
         None \<Rightarrow> failp ErrAccountNotFound
       | Some balance \<Rightarrow>
           let balanceBefore = bAmount balance;
               balance1 = balance\<lparr>bAmount := i64 (bAmount balance + dpAmount request), bUpdatedAt := utc\<rparr>;
               balanceAfter = bAmount balance1
           in bindp (wrap ''deposit update balance failed'' (UpdateBalance B balance1)) (\<lambda>_.
              bindp (callp (NextID B)) (\<lambda>i.
              bindp (wrap ''deposit insert transaction failed''
                (InsertTransaction B
                  \<lparr>tID = i, tAccountID = dpAccountID request, tTxType = TxTypeDeposit,
                   tAmount = dpAmount request, tTimestamp = utc, tParentID = None\<rparr>)) (\<lambda>_.
              returnp [balanceBefore, balanceAfter])))))"

definition Deposit :: "'w backend \<Rightarrow> DepositRequest \<Rightarrow> ('w, error, DepositResponse) prog" where
  "Deposit B request =
     (if dpAmount request \<le> 0 then failp ErrInvalidTransactionAmount
      else
        bindp (callp (NowUTC B)) (\<lambda>utc.
        bindp (BeginTxFunc B (depositTx B request utc)) (\<lambda>captured.
        returnp \<lparr>dpBalanceBefore = captured ! 0, dpBalanceAfter = captured ! 1, dpTxTime = utc\<rparr>)))"

definition withdrawTx :: "'w backend \<Rightarrow> WithdrawRequest \<Rightarrow> Time \<Rightarrow> ('w, error, int list) prog" where
  "withdrawTx B request utc =
     bindp (wrap ''withdraw insert idempotency key failed''
              (InsertIdempotencyKey B \<lparr>kKey = wdIdempotencyKey request, kCreatedAt = utc\<rparr>)) (\<lambda>rowsChanged.
     if rowsChanged = 0 then failp ErrIdempotencyKeyExists
     else
       bindp (wrap ''withdraw get balance failed'' (GetBalanceWithLock B (wdAccountID request))) (\<lambda>found.
       case found of
         None \<Rightarrow> failp ErrAccountNotFound
       | Some balance \<Rightarrow>
           let balanceBefore = bAmount balance;
               balance1 = balance\<lparr>bAmount := i64 (bAmount balance - wdAmount request)\<rparr>
           in if bAmount balance1 < 0 then failp ErrInsufficientBalance
              else
                let balance2 = balance1\<lparr>bUpdatedAt := utc\<rparr>;
                    balanceAfter = bAmount balance2
                in bindp (wrap ''withdraw update balance failed'' (UpdateBalance B balance2)) (\<lambda>_.
                   bindp (callp (NextID B)) (\<lambda>i.
                   bindp (wrap ''withdraw insert transaction failed''
                     (InsertTransaction B
                       \<lparr>tID = i, tAccountID = wdAccountID request, tTxType = TxTypeWithdrawal,
                        tAmount = i64 (- wdAmount request), tTimestamp = utc, tParentID = None\<rparr>)) (\<lambda>_.
                   returnp [balanceBefore, balanceAfter])))))"

definition Withdraw :: "'w backend \<Rightarrow> WithdrawRequest \<Rightarrow> ('w, error, WithdrawResponse) prog" where
  "Withdraw B request =
     (if wdAmount request \<le> 0 then failp ErrInvalidTransactionAmount
      else
        bindp (callp (NowUTC B)) (\<lambda>utc.
        bindp (BeginTxFunc B (withdrawTx B request utc)) (\<lambda>captured.
        returnp \<lparr>wdBalanceBefore = captured ! 0, wdBalanceAfter = captured ! 1, wdTxTime = utc\<rparr>)))"

definition transferWrites ::
  "'w backend \<Rightarrow> TransferRequest \<Rightarrow> Time \<Rightarrow> Balance \<Rightarrow> Balance \<Rightarrow> ('w, error, int list) prog" where
  "transferWrites B request utc fromBalance toBalance =
     (let fromBalanceBefore = bAmount fromBalance;
          toBalanceBefore = bAmount toBalance;
          fromBalance1 = fromBalance\<lparr>bAmount := i64 (bAmount fromBalance - trAmount request)\<rparr>;
          toBalance1 = toBalance\<lparr>bAmount := i64 (bAmount toBalance + trAmount request)\<rparr>;
          fromBalanceAfter = bAmount fromBalance1;
          toBalanceAfter = bAmount toBalance1
      in bindp (UpdateBalance B fromBalance1) (\<lambda>_.
         bindp (UpdateBalance B toBalance1) (\<lambda>_.
         bindp (callp (NextID B)) (\<lambda>debitID.
         bindp (InsertTransaction B
           \<lparr>tID = debitID, tAccountID = trAccountIDFrom request, tTxType = TxTypeTransfer,
            tAmount = i64 (- trAmount request), tTimestamp = utc, tParentID = None\<rparr>) (\<lambda>_.
         bindp (callp (NextID B)) (\<lambda>creditID.
         bindp (InsertTransaction B
           \<lparr>tID = creditID, tAccountID = trAccountIDTo request, tTxType = TxTypeTransfer,
            tAmount = trAmount request, tTimestamp = utc, tParentID = Some debitID\<rparr>) (\<lambda>_.
         returnp [fromBalanceBefore, fromBalanceAfter, toBalanceBefore, toBalanceAfter])))))))"

definition transferTx :: "'w backend \<Rightarrow> TransferRequest \<Rightarrow> Time \<Rightarrow> ('w, error, int list) prog" where
  "transferTx B request utc =
     bindp (InsertIdempotencyKey B \<lparr>kKey = trIdempotencyKey request, kCreatedAt = utc\<rparr>) (\<lambda>rowsChanged.
     if rowsChanged = 0 then failp ErrIdempotencyKeyExists
     else
       bindp (GetBalanceWithLock B (trAccountIDFrom request)) (\<lambda>foundFrom.
       case foundFrom of
         None \<Rightarrow> failp (ErrBalanceMissing (trAccountIDFrom request))
       | Some fromBalance \<Rightarrow>
           if bAmount fromBalance < trAmount request then failp ErrInsufficientBalance
           else
             bindp (GetBalanceWithLock B (trAccountIDTo request)) (\<lambda>foundTo.
             case foundTo of
               None \<Rightarrow> failp (ErrBalanceMissing (trAccountIDTo request))
             | Some toBalance \<Rightarrow> transferWrites B request utc fromBalance toBalance)))"

definition Transfer :: "'w backend \<Rightarrow> TransferRequest \<Rightarrow> ('w, error, TransferResponse) prog" where
  "Transfer B request =
     (if trAmount request = 0 then failp ErrInvalidTransactionAmount
      else
        bindp (wrap ''transfer get currency ID failed for fromAccount''
                 (GetAccountCurrencyID B (trAccountIDFrom request))) (\<lambda>fromCurrency.
        if fromCurrency = '''' then failp ErrTransferFromAccountNotFound
        else
          bindp (wrap ''transfer get currency ID failed for toAccount''
                   (GetAccountCurrencyID B (trAccountIDTo request))) (\<lambda>toCurrency.
          if toCurrency = '''' then failp ErrTransferToAccountNotFound
          else if fromCurrency \<noteq> toCurrency then failp ErrTransferCurrencyMismatch
          else
            bindp (callp (NowUTC B)) (\<lambda>utc.
            bindp (BeginTxFunc B (transferTx B request utc)) (\<lambda>captured.
            returnp \<lparr>trFromBefore = captured ! 0, trFromAfter = captured ! 1,
                     trToBefore = captured ! 2, trToAfter = captured ! 3, trTxTime = utc\<rparr>)))))"

section \<open>The ledger: what a call may do to the tables\<close>

text \<open>
  The abstract specification of the bank: each operation as one change of the tables, with the
  conditions under which it happens. Amounts are added with the wrap-around of \<open>int64\<close>.
\<close>

datatype ledger_op =
    OpenCurrency string int
  | OpenAccount int string string string
  | OpDeposit int int string
  | OpWithdraw int int string
  | OpTransfer int int int string

inductive ledger_step :: "tables \<Rightarrow> ledger_op \<Rightarrow> tables \<Rightarrow> bool" where
  open_currency: "ledger_step T (OpenCurrency c d) (putCurrency c d T)"
    if "CurrencyIdRegex c" "0 \<le> d" "currencies T c = None"
| open_account: "ledger_step T (OpenAccount i nm cu k)
      (putBalance \<lparr>bAccountID = i, bAmount = 0, bUpdatedAt = u\<rparr>
        (putAccount \<lparr>aID = i, aName = nm, aCurrencyID = cu, aCreatedAt = u\<rparr> (putKey k now T)))"
    if "idempotency_keys T k = None" "nm \<noteq> ''''" "currencies T cu \<noteq> None"
       "accounts T i = None" "balances T i = None"
| deposit: "ledger_step T (OpDeposit a amt k)
      (putTransaction \<lparr>tID = i, tAccountID = a, tTxType = TxTypeDeposit, tAmount = amt,
                       tTimestamp = u, tParentID = None\<rparr>
        (putBalance \<lparr>bAccountID = a, bAmount = i64 (bAmount b + amt), bUpdatedAt = u\<rparr> (putKey k u T)))"
    if "idempotency_keys T k = None" "0 < amt" "balances T a = Some b" "accounts T a \<noteq> None"
       "transactions T i = None"
| withdraw: "ledger_step T (OpWithdraw a amt k)
      (putTransaction \<lparr>tID = i, tAccountID = a, tTxType = TxTypeWithdrawal, tAmount = i64 (- amt),
                       tTimestamp = u, tParentID = None\<rparr>
        (putBalance \<lparr>bAccountID = a, bAmount = i64 (bAmount b - amt), bUpdatedAt = u\<rparr> (putKey k u T)))"
    if "idempotency_keys T k = None" "0 < amt" "balances T a = Some b" "accounts T a \<noteq> None"
       "0 \<le> i64 (bAmount b - amt)" "transactions T i = None"
| transfer: "ledger_step T (OpTransfer a a' amt k)
      (putTransaction \<lparr>tID = j, tAccountID = a', tTxType = TxTypeTransfer, tAmount = amt,
                       tTimestamp = u, tParentID = Some i\<rparr>
        (putTransaction \<lparr>tID = i, tAccountID = a, tTxType = TxTypeTransfer, tAmount = i64 (- amt),
                         tTimestamp = u, tParentID = None\<rparr>
          (putBalance \<lparr>bAccountID = a', bAmount = i64 (bAmount b' + amt), bUpdatedAt = bUpdatedAt b'\<rparr>
            (putBalance \<lparr>bAccountID = a, bAmount = i64 (bAmount b - amt), bUpdatedAt = bUpdatedAt b\<rparr>
              (putKey k u T)))))"
    if "idempotency_keys T k = None" "amt \<noteq> 0" "balances T a = Some b" "balances T a' = Some b'"
       "amt \<le> bAmount b" "accounts T a = Some x" "accounts T a' = Some x'"
       "aCurrencyID x = aCurrencyID x'" "transactions T i = None" "transactions T j = None" "i \<noteq> j"

section \<open>Every call refines the ledger\<close>

context postgres
begin

lemma begin_tx_effect:
  assumes "BeginTxFunc B f w = (r, w')"
    and ok: "\<And>w1 x w2. tabs w1 = tabs w \<Longrightarrow> f w1 = (Inr x, w2) \<Longrightarrow> P x (tabs w2)"
  shows "(\<exists>e. r = Inl e) \<and> tabs w' = tabs w \<or>
    (\<exists>x. P x (tabs w') \<and> (r = Inr x \<or> (\<exists>e. r = Inl e)))"
  using begin_tx [OF assms(1)] ok by (metis (no_types, lifting))

lemma createCurrencyTx_effect:
  assumes "createCurrencyTx B c w = (Inr x, w')"
  shows "currencies (tabs w) (cID c) = None \<and> tabs w' = putCurrency (cID c) (cDecimals c) (tabs w)"
  using assms unfolding createCurrencyTx_def
  by (auto elim!: bindpE on_errE dest!: InsertCurrency_effect)

lemma createAccountTx_effect:
  assumes "createAccountTx B req a w = (Inr x, w')"
  shows "\<exists>now. idempotency_keys (tabs w) (caIdempotencyKey req) = None \<and>
    accounts (tabs w) (aID a) = None \<and> balances (tabs w) (aID a) = None \<and>
    currencies (tabs w) (aCurrencyID a) \<noteq> None \<and>
    tabs w' = putBalance \<lparr>bAccountID = aID a, bAmount = 0, bUpdatedAt = aCreatedAt a\<rparr>
      (putAccount a (putKey (caIdempotencyKey req) now (tabs w)))"
  using assms unfolding createAccountTx_def
  by (auto elim!: bindpE dest!: InsertIdempotencyKey_effect InsertAccount_effect
      InsertZeroBalance_effect simp: time_now_reads split: if_splits) blast

lemma depositTx_effect:
  assumes "depositTx B req utc w = (Inr x, w')"
  shows "\<exists>i b. idempotency_keys (tabs w) (dpIdempotencyKey req) = None \<and>
    balances (tabs w) (dpAccountID req) = Some b \<and> accounts (tabs w) (dpAccountID req) \<noteq> None \<and>
    transactions (tabs w) i = None \<and> x = [bAmount b, i64 (bAmount b + dpAmount req)] \<and>
    tabs w' = putTransaction \<lparr>tID = i, tAccountID = dpAccountID req, tTxType = TxTypeDeposit,
        tAmount = dpAmount req, tTimestamp = utc, tParentID = None\<rparr>
      (putBalance \<lparr>bAccountID = dpAccountID req, bAmount = i64 (bAmount b + dpAmount req),
          bUpdatedAt = utc\<rparr> (putKey (dpIdempotencyKey req) utc (tabs w)))"
  using assms unfolding depositTx_def
  by (auto elim!: bindpE on_errE dest!: InsertIdempotencyKey_effect GetBalanceWithLock_effect
      UpdateBalance_effect InsertTransaction_effect simp: next_id_reads Let_def
      split: if_splits option.splits) blast

lemma withdrawTx_effect:
  assumes "withdrawTx B req utc w = (Inr x, w')"
  shows "\<exists>i b. idempotency_keys (tabs w) (wdIdempotencyKey req) = None \<and>
    balances (tabs w) (wdAccountID req) = Some b \<and> accounts (tabs w) (wdAccountID req) \<noteq> None \<and>
    0 \<le> i64 (bAmount b - wdAmount req) \<and>
    transactions (tabs w) i = None \<and> x = [bAmount b, i64 (bAmount b - wdAmount req)] \<and>
    tabs w' = putTransaction \<lparr>tID = i, tAccountID = wdAccountID req, tTxType = TxTypeWithdrawal,
        tAmount = i64 (- wdAmount req), tTimestamp = utc, tParentID = None\<rparr>
      (putBalance \<lparr>bAccountID = wdAccountID req, bAmount = i64 (bAmount b - wdAmount req),
          bUpdatedAt = utc\<rparr> (putKey (wdIdempotencyKey req) utc (tabs w)))"
  using assms unfolding withdrawTx_def
  by (auto elim!: bindpE on_errE dest!: InsertIdempotencyKey_effect GetBalanceWithLock_effect
      UpdateBalance_effect InsertTransaction_effect simp: next_id_reads Let_def
      split: if_splits option.splits) blast

lemma transferWrites_effect:
  assumes "transferWrites B req utc bf bt w = (Inr x, w')"
    and "balances (tabs w) (bAccountID bf) \<noteq> None" "balances (tabs w) (bAccountID bt) \<noteq> None"
  shows "\<exists>i j. transactions (tabs w) i = None \<and> transactions (tabs w) j = None \<and> i \<noteq> j \<and>
    x = [bAmount bf, i64 (bAmount bf - trAmount req), bAmount bt, i64 (bAmount bt + trAmount req)] \<and>
    tabs w' = putTransaction \<lparr>tID = j, tAccountID = trAccountIDTo req, tTxType = TxTypeTransfer,
        tAmount = trAmount req, tTimestamp = utc, tParentID = Some i\<rparr>
      (putTransaction \<lparr>tID = i, tAccountID = trAccountIDFrom req, tTxType = TxTypeTransfer,
        tAmount = i64 (- trAmount req), tTimestamp = utc, tParentID = None\<rparr>
      (putBalance (bt\<lparr>bAmount := i64 (bAmount bt + trAmount req)\<rparr>)
      (putBalance (bf\<lparr>bAmount := i64 (bAmount bf - trAmount req)\<rparr>) (tabs w))))"
  using assms unfolding transferWrites_def Let_def
  by (auto elim!: bindpE dest!: UpdateBalance_effect InsertTransaction_effect
      simp: next_id_reads split: if_splits) metis+

lemma transferTx_effect:
  assumes "transferTx B req utc w = (Inr x, w')"
  shows "\<exists>i j b b'. idempotency_keys (tabs w) (trIdempotencyKey req) = None \<and>
    balances (tabs w) (trAccountIDFrom req) = Some b \<and> balances (tabs w) (trAccountIDTo req) = Some b' \<and>
    trAmount req \<le> bAmount b \<and> transactions (tabs w) i = None \<and> transactions (tabs w) j = None \<and> i \<noteq> j \<and>
    x = [bAmount b, i64 (bAmount b - trAmount req), bAmount b', i64 (bAmount b' + trAmount req)] \<and>
    tabs w' = putTransaction \<lparr>tID = j, tAccountID = trAccountIDTo req, tTxType = TxTypeTransfer,
        tAmount = trAmount req, tTimestamp = utc, tParentID = Some i\<rparr>
      (putTransaction \<lparr>tID = i, tAccountID = trAccountIDFrom req, tTxType = TxTypeTransfer,
        tAmount = i64 (- trAmount req), tTimestamp = utc, tParentID = None\<rparr>
      (putBalance \<lparr>bAccountID = trAccountIDTo req, bAmount = i64 (bAmount b' + trAmount req),
          bUpdatedAt = bUpdatedAt b'\<rparr>
      (putBalance \<lparr>bAccountID = trAccountIDFrom req, bAmount = i64 (bAmount b - trAmount req),
          bUpdatedAt = bUpdatedAt b\<rparr> (putKey (trIdempotencyKey req) utc (tabs w)))))"
proof -
  obtain w1 b b' where w1: "idempotency_keys (tabs w) (trIdempotencyKey req) = None"
    "tabs w1 = putKey (trIdempotencyKey req) utc (tabs w)"
    "balances (tabs w) (trAccountIDFrom req) = Some b" "balances (tabs w) (trAccountIDTo req) = Some b'"
    "trAmount req \<le> bAmount b"
    "transferWrites B req utc
       \<lparr>bAccountID = trAccountIDFrom req, bAmount = bAmount b, bUpdatedAt = bUpdatedAt b\<rparr>
       \<lparr>bAccountID = trAccountIDTo req, bAmount = bAmount b', bUpdatedAt = bUpdatedAt b'\<rparr> w1 = (Inr x, w')"
    using assms unfolding transferTx_def
    by (auto elim!: bindpE dest!: InsertIdempotencyKey_effect GetBalanceWithLock_effect
        split: if_splits option.splits)
  show ?thesis using transferWrites_effect [OF w1(6)] w1 by auto
qed

end

end
