(* ===== verification/Bank_Ledger.thy ===== *)
theory Bank_Ledger
  imports Bank_Service
begin

text \<open>
  The service refines the ledger: on a backend that satisfies \<open>postgres\<close>, every call either
  leaves the tables alone or performs exactly one ledger operation, and a call that reports
  success performed it. The invariants of the tables are then proved once, on the ledger.
\<close>

section \<open>Calls\<close>

text \<open>A call of the service interface, and its effect with the response reduced to the error.\<close>

datatype request =
    ReqCreateCurrency CreateCurrencyRequest
  | ReqGetCurrencies
  | ReqCreateAccount CreateAccountRequest
  | ReqGetAccountInfo GetAccountInfoRequest
  | ReqDeposit DepositRequest
  | ReqWithdraw WithdrawRequest
  | ReqTransfer TransferRequest

definition errOf :: "('e + 'a) \<times> 'w \<Rightarrow> 'e option \<times> 'w" where
  "errOf p = (case p of (Inl e, w) \<Rightarrow> (Some e, w) | (Inr _, w) \<Rightarrow> (None, w))"

fun serve :: "'w backend \<Rightarrow> request \<Rightarrow> 'w \<Rightarrow> error option \<times> 'w" where
  "serve B (ReqCreateCurrency req) w = errOf (CreateCurrency B req w)"
| "serve B ReqGetCurrencies w = errOf (ServiceGetCurrencies B w)"
| "serve B (ReqCreateAccount req) w = errOf (CreateAccount B req w)"
| "serve B (ReqGetAccountInfo req) w = errOf (GetAccountInfo B req w)"
| "serve B (ReqDeposit req) w = errOf (Deposit B req w)"
| "serve B (ReqWithdraw req) w = errOf (Withdraw B req w)"
| "serve B (ReqTransfer req) w = errOf (Transfer B req w)"

fun serveAll :: "'w backend \<Rightarrow> request list \<Rightarrow> 'w \<Rightarrow> error option list \<times> 'w" where
  "serveAll B [] w = ([], w)"
| "serveAll B (q # qs) w =
     (let (e, w1) = serve B q w; (es, w2) = serveAll B qs w1 in (e # es, w2))"

text \<open>The ledger operation a request asks for; a new account's number is chosen by the bank.\<close>

fun asks_for :: "request \<Rightarrow> ledger_op \<Rightarrow> bool" where
  "asks_for (ReqCreateCurrency q) op \<longleftrightarrow> op = OpenCurrency (ccID q) (ccDecimals q)"
| "asks_for (ReqCreateAccount q) op \<longleftrightarrow> (\<exists>i. op = OpenAccount i (caName q) (caCurrency q) (caIdempotencyKey q))"
| "asks_for (ReqDeposit q) op \<longleftrightarrow> op = OpDeposit (dpAccountID q) (dpAmount q) (dpIdempotencyKey q)"
| "asks_for (ReqWithdraw q) op \<longleftrightarrow> op = OpWithdraw (wdAccountID q) (wdAmount q) (wdIdempotencyKey q)"
| "asks_for (ReqTransfer q) op \<longleftrightarrow>
     op = OpTransfer (trAccountIDFrom q) (trAccountIDTo q) (trAmount q) (trIdempotencyKey q)"
| "asks_for _ op \<longleftrightarrow> False"

fun read_only :: "request \<Rightarrow> bool" where
  "read_only ReqGetCurrencies = True"
| "read_only (ReqGetAccountInfo _) = True"
| "read_only _ = False"

section \<open>Refinement\<close>

context postgres
begin

lemma CreateCurrency_refines:
  assumes "CreateCurrency B req w = (r, w')"
  shows "(\<exists>e. r = Inl e) \<and> tabs w' = tabs w \<or>
    ledger_step (tabs w) (OpenCurrency (ccID req) (ccDecimals req)) (tabs w')"
proof (cases "CurrencyIdRegex (ccID req) \<and> 0 \<le> ccDecimals req")
  case False
  with assms show ?thesis by (auto simp: CreateCurrency_def split: if_splits)
next
  case True
  let ?c = "\<lparr>cID = ccID req, cDecimals = ccDecimals req\<rparr>"
  let ?P = "\<lambda>x T. ledger_step (tabs w) (OpenCurrency (ccID req) (ccDecimals req)) T"
  have tx: "?P x (tabs w2)" if "tabs w1 = tabs w" "createCurrencyTx B ?c w1 = (Inr x, w2)" for w1 x w2
    using createCurrencyTx_effect [OF that(2)] that(1) True by (auto intro: ledger_step.open_currency)
  from assms True have "bindp (BeginTxFunc B (createCurrencyTx B ?c)) (\<lambda>_. returnp ()) w = (r, w')"
    by (simp add: CreateCurrency_def)
  then obtain r1 where r1: "BeginTxFunc B (createCurrencyTx B ?c) w = (r1, w')"
    "(\<exists>e. r1 = Inl e) \<longrightarrow> (\<exists>e. r = Inl e)"
    by (auto elim!: bindpE)
  have "(\<exists>e. r1 = Inl e) \<and> tabs w' = tabs w \<or>
      (\<exists>x. ?P x (tabs w') \<and> (r1 = Inr x \<or> (\<exists>e. r1 = Inl e)))"
    by (rule begin_tx_effect [where P = ?P, OF r1(1)]) (rule tx)
  with r1(2) show ?thesis by blast
qed

lemma CreateAccount_refines:
  assumes "CreateAccount B req w = (r, w')"
  shows "(\<exists>e. r = Inl e) \<and> tabs w' = tabs w \<or>
    (\<exists>i. ledger_step (tabs w) (OpenAccount i (caName req) (caCurrency req) (caIdempotencyKey req)) (tabs w') \<and>
       ((\<exists>e. r = Inl e) \<or> r = Inr \<lparr>caID = i\<rparr>))"
proof (cases "caName req = ''''")
  case True
  with assms show ?thesis by (auto simp: CreateAccount_def)
next
  case False
  from assms consider "\<exists>e. r = Inl e" "tabs w' = tabs w"
    | i now w1 where "bindp (BeginTxFunc B (createAccountTx B req
          \<lparr>aID = i, aName = caName req, aCurrencyID = caCurrency req, aCreatedAt = now\<rparr>))
        (\<lambda>_. returnp \<lparr>caID = i\<rparr>) w1 = (r, w')" "tabs w1 = tabs w"
    using False unfolding CreateAccount_def Let_def
    by (auto elim!: bindpE [of "on_err _ _"] bindpE [of "callp _"] on_errE dest!: CurrencyExists_effect
        simp: next_id_reads now_utc_reads split: if_splits)
  then show ?thesis
  proof cases
    case 1
    then show ?thesis by blast
  next
    case 2
    let ?a = "\<lparr>aID = i, aName = caName req, aCurrencyID = caCurrency req, aCreatedAt = now\<rparr>"
    let ?P = "\<lambda>x T. ledger_step (tabs w) (OpenAccount i (caName req) (caCurrency req) (caIdempotencyKey req)) T"
    have tx: "?P x (tabs v2)" if "tabs v1 = tabs w1" "createAccountTx B req ?a v1 = (Inr x, v2)" for v1 x v2
      using createAccountTx_effect [OF that(2)] that(1) 2(2) False
      by (auto simp: ledger_step.simps)
    from 2(1) obtain r1 where r1: "BeginTxFunc B (createAccountTx B req ?a) w1 = (r1, w')"
      "(\<exists>e. r1 = Inl e \<and> r = Inl e) \<or> (\<exists>x. r1 = Inr x \<and> r = Inr \<lparr>caID = i\<rparr>)"
      by (auto elim!: bindpE)
    have "(\<exists>e. r1 = Inl e) \<and> tabs w' = tabs w1 \<or>
        (\<exists>x. ?P x (tabs w') \<and> (r1 = Inr x \<or> (\<exists>e. r1 = Inl e)))"
      by (rule begin_tx_effect [where P = ?P, OF r1(1)]) (rule tx)
    with r1(2) 2(2) show ?thesis by fastforce
  qed
qed

lemma Deposit_refines:
  assumes "Deposit B req w = (r, w')"
  shows "(\<exists>e. r = Inl e) \<and> tabs w' = tabs w \<or>
    ledger_step (tabs w) (OpDeposit (dpAccountID req) (dpAmount req) (dpIdempotencyKey req)) (tabs w') \<and>
      ((\<exists>e. r = Inl e) \<or>
       (\<exists>b utc. balances (tabs w) (dpAccountID req) = Some b \<and>
          r = Inr \<lparr>dpBalanceBefore = bAmount b, dpBalanceAfter = i64 (bAmount b + dpAmount req),
                   dpTxTime = utc\<rparr>))"
proof (cases "dpAmount req \<le> 0")
  case True
  with assms show ?thesis by (auto simp: Deposit_def)
next
  case False
  let ?utc = "fst (NowUTC B w)" and ?w1 = "snd (NowUTC B w)"
  let ?P = "\<lambda>x T. ledger_step (tabs w) (OpDeposit (dpAccountID req) (dpAmount req) (dpIdempotencyKey req)) T \<and>
      (\<exists>b. balances (tabs w) (dpAccountID req) = Some b \<and> x = [bAmount b, i64 (bAmount b + dpAmount req)])"
  have tx: "?P x (tabs w3)" if "tabs w2 = tabs ?w1" "depositTx B req ?utc w2 = (Inr x, w3)" for w2 x w3
    using depositTx_effect [OF that(2)] that(1) False now_utc_reads [of w]
    by (elim exE conjE) (auto simp: ledger_step.simps)
  from False assms obtain r1 where r1: "BeginTxFunc B (depositTx B req ?utc) ?w1 = (r1, w')"
    "(\<exists>e. r1 = Inl e \<and> r = Inl e) \<or> (\<exists>x. r1 = Inr x \<and>
       r = Inr \<lparr>dpBalanceBefore = x ! 0, dpBalanceAfter = x ! 1, dpTxTime = ?utc\<rparr>)"
    unfolding Deposit_def by (auto elim!: bindpE)
  have "(\<exists>e. r1 = Inl e) \<and> tabs w' = tabs ?w1 \<or>
      (\<exists>x. ?P x (tabs w') \<and> (r1 = Inr x \<or> (\<exists>e. r1 = Inl e)))"
    by (rule begin_tx_effect [where P = ?P, OF r1(1)]) (rule tx)
  with r1(2) now_utc_reads [of w] show ?thesis by fastforce
qed

lemma Withdraw_refines:
  assumes "Withdraw B req w = (r, w')"
  shows "(\<exists>e. r = Inl e) \<and> tabs w' = tabs w \<or>
    ledger_step (tabs w) (OpWithdraw (wdAccountID req) (wdAmount req) (wdIdempotencyKey req)) (tabs w') \<and>
      ((\<exists>e. r = Inl e) \<or>
       (\<exists>b utc. balances (tabs w) (wdAccountID req) = Some b \<and>
          r = Inr \<lparr>wdBalanceBefore = bAmount b, wdBalanceAfter = i64 (bAmount b - wdAmount req),
                   wdTxTime = utc\<rparr>))"
proof (cases "wdAmount req \<le> 0")
  case True
  with assms show ?thesis by (auto simp: Withdraw_def)
next
  case False
  let ?utc = "fst (NowUTC B w)" and ?w1 = "snd (NowUTC B w)"
  let ?P = "\<lambda>x T. ledger_step (tabs w) (OpWithdraw (wdAccountID req) (wdAmount req) (wdIdempotencyKey req)) T \<and>
      (\<exists>b. balances (tabs w) (wdAccountID req) = Some b \<and> x = [bAmount b, i64 (bAmount b - wdAmount req)])"
  have tx: "?P x (tabs w3)" if "tabs w2 = tabs ?w1" "withdrawTx B req ?utc w2 = (Inr x, w3)" for w2 x w3
    using withdrawTx_effect [OF that(2)] that(1) False now_utc_reads [of w]
    by (elim exE conjE) (auto simp: ledger_step.simps)
  from False assms obtain r1 where r1: "BeginTxFunc B (withdrawTx B req ?utc) ?w1 = (r1, w')"
    "(\<exists>e. r1 = Inl e \<and> r = Inl e) \<or> (\<exists>x. r1 = Inr x \<and>
       r = Inr \<lparr>wdBalanceBefore = x ! 0, wdBalanceAfter = x ! 1, wdTxTime = ?utc\<rparr>)"
    unfolding Withdraw_def by (auto elim!: bindpE)
  have "(\<exists>e. r1 = Inl e) \<and> tabs w' = tabs ?w1 \<or>
      (\<exists>x. ?P x (tabs w') \<and> (r1 = Inr x \<or> (\<exists>e. r1 = Inl e)))"
    by (rule begin_tx_effect [where P = ?P, OF r1(1)]) (rule tx)
  with r1(2) now_utc_reads [of w] show ?thesis by fastforce
qed

lemma Transfer_refines:
  assumes "Transfer B req w = (r, w')"
  shows "(\<exists>e. r = Inl e) \<and> tabs w' = tabs w \<or>
    ledger_step (tabs w)
        (OpTransfer (trAccountIDFrom req) (trAccountIDTo req) (trAmount req) (trIdempotencyKey req))
        (tabs w') \<and>
      ((\<exists>e. r = Inl e) \<or>
       (\<exists>b b' utc. balances (tabs w) (trAccountIDFrom req) = Some b \<and>
          balances (tabs w) (trAccountIDTo req) = Some b' \<and>
          r = Inr \<lparr>trFromBefore = bAmount b, trFromAfter = i64 (bAmount b - trAmount req),
                   trToBefore = bAmount b', trToAfter = i64 (bAmount b' + trAmount req),
                   trTxTime = utc\<rparr>))"
proof (cases "trAmount req = 0")
  case True
  with assms show ?thesis by (auto simp: Transfer_def)
next
  case False
  from assms consider "\<exists>e. r = Inl e" "tabs w' = tabs w"
    | x x' utc w1 where "accounts (tabs w) (trAccountIDFrom req) = Some x"
      "accounts (tabs w) (trAccountIDTo req) = Some x'" "aCurrencyID x = aCurrencyID x'"
      "bindp (BeginTxFunc B (transferTx B req utc)) (\<lambda>captured.
         returnp \<lparr>trFromBefore = captured ! 0, trFromAfter = captured ! 1,
                  trToBefore = captured ! 2, trToAfter = captured ! 3, trTxTime = utc\<rparr>) w1 = (r, w')" "tabs w1 = tabs w"
    using False unfolding Transfer_def
    by (auto elim!: bindpE [of "on_err _ _"] bindpE [of "callp _"] on_errE
        dest!: GetAccountCurrencyID_effect simp: now_utc_reads split: if_splits)
  then show ?thesis
  proof cases
    case 1
    then show ?thesis by blast
  next
    case 2
    let ?op = "OpTransfer (trAccountIDFrom req) (trAccountIDTo req) (trAmount req) (trIdempotencyKey req)"
    let ?P = "\<lambda>c T. ledger_step (tabs w) ?op T \<and>
      (\<exists>b b'. balances (tabs w) (trAccountIDFrom req) = Some b \<and>
         balances (tabs w) (trAccountIDTo req) = Some b' \<and>
         c = [bAmount b, i64 (bAmount b - trAmount req), bAmount b', i64 (bAmount b' + trAmount req)])"
    have tx: "?P c (tabs v2)" if "tabs v1 = tabs w1" "transferTx B req utc v1 = (Inr c, v2)" for v1 c v2
      using transferTx_effect [OF that(2)] that(1) 2(1-3,5) False
      by (elim exE conjE) (auto simp: ledger_step.simps)
    from 2(4) obtain r1 where r1: "BeginTxFunc B (transferTx B req utc) w1 = (r1, w')"
      "(\<exists>e. r1 = Inl e \<and> r = Inl e) \<or> (\<exists>c. r1 = Inr c \<and>
         r = Inr \<lparr>trFromBefore = c ! 0, trFromAfter = c ! 1, trToBefore = c ! 2,
                  trToAfter = c ! 3, trTxTime = utc\<rparr>)"
      by (auto elim!: bindpE)
    have "(\<exists>e. r1 = Inl e) \<and> tabs w' = tabs w1 \<or>
        (\<exists>x. ?P x (tabs w') \<and> (r1 = Inr x \<or> (\<exists>e. r1 = Inl e)))"
      by (rule begin_tx_effect [where P = ?P, OF r1(1)]) (rule tx)
    with r1(2) 2(5) show ?thesis by fastforce
  qed
qed

lemma reads_keep_tables:
  "GetCurrencies B w = (r, w') \<Longrightarrow> tabs w' = tabs w"
  "GetAccountInfoByID B i w = (r', w') \<Longrightarrow> tabs w' = tabs w"
  "GetTransactionsByAccountID B i w = (r'', w') \<Longrightarrow> tabs w' = tabs w"
  unfolding GetCurrencies_def GetAccountInfoByID_def GetTransactionsByAccountID_def
  by (auto elim!: bindpE simp: fromRes_def dest!: query_reads [rotated])

lemma service_reads_keep_tables:
  "ServiceGetCurrencies B w = (r, w') \<Longrightarrow> tabs w' = tabs w"
  "GetAccountInfo B q w = (r', w') \<Longrightarrow> tabs w' = tabs w"
  unfolding ServiceGetCurrencies_def GetAccountInfo_def
  by (auto elim!: bindpE on_errE dest: reads_keep_tables)

lemma serve_refines:
  assumes "serve B q w = (e, w')"
  shows "tabs w' = tabs w \<and> (e \<noteq> None \<or> read_only q) \<or>
    (\<exists>op. asks_for q op \<and> ledger_step (tabs w) op (tabs w'))"
  using assms
proof (cases q)
  case (ReqCreateCurrency x)
  obtain r where r: "CreateCurrency B x w = (r, w')" "e = (case r of Inl e \<Rightarrow> Some e | Inr _ \<Rightarrow> None)"
    using assms ReqCreateCurrency by (auto simp: errOf_def split: prod.splits sum.splits)
  from CreateCurrency_refines [OF r(1)] r(2) ReqCreateCurrency show ?thesis by auto
next
  case (ReqCreateAccount x)
  obtain r where r: "CreateAccount B x w = (r, w')" "e = (case r of Inl e \<Rightarrow> Some e | Inr _ \<Rightarrow> None)"
    using assms ReqCreateAccount by (auto simp: errOf_def split: prod.splits sum.splits)
  from CreateAccount_refines [OF r(1)] r(2) ReqCreateAccount show ?thesis by auto
next
  case (ReqDeposit x)
  obtain r where r: "Deposit B x w = (r, w')" "e = (case r of Inl e \<Rightarrow> Some e | Inr _ \<Rightarrow> None)"
    using assms ReqDeposit by (auto simp: errOf_def split: prod.splits sum.splits)
  from Deposit_refines [OF r(1)] r(2) ReqDeposit show ?thesis by auto
next
  case (ReqWithdraw x)
  obtain r where r: "Withdraw B x w = (r, w')" "e = (case r of Inl e \<Rightarrow> Some e | Inr _ \<Rightarrow> None)"
    using assms ReqWithdraw by (auto simp: errOf_def split: prod.splits sum.splits)
  from Withdraw_refines [OF r(1)] r(2) ReqWithdraw show ?thesis by auto
next
  case (ReqTransfer x)
  obtain r where r: "Transfer B x w = (r, w')" "e = (case r of Inl e \<Rightarrow> Some e | Inr _ \<Rightarrow> None)"
    using assms ReqTransfer by (auto simp: errOf_def split: prod.splits sum.splits)
  from Transfer_refines [OF r(1)] r(2) ReqTransfer show ?thesis by auto
qed (auto simp: errOf_def split: prod.splits sum.splits dest: service_reads_keep_tables)

end

end
