(* ===== verification/Bank_Invariants.thy ===== *)
theory Bank_Invariants
  imports Bank_Ledger
begin

text \<open>
  What the bank keeps true of its tables. Each invariant is proved once, by case analysis on the
  steps of the ledger, and reaches the code through the refinement of \<open>Bank_Ledger\<close>: the
  properties hold for every backend that satisfies \<open>postgres\<close> and every sequence of calls.
\<close>

section \<open>The invariants\<close>

text \<open>Keys, foreign keys and checked fields: an account has exactly one balance row.\<close>

definition db_ok :: "tables \<Rightarrow> bool" where
  "db_ok T \<longleftrightarrow>
     finite (dom (currencies T)) \<and> finite (dom (accounts T)) \<and> finite (dom (transactions T)) \<and>
     dom (balances T) = dom (accounts T) \<and>
     (\<forall>c d. currencies T c = Some d \<longrightarrow> CurrencyIdRegex c \<and> 0 \<le> d) \<and>
     (\<forall>i a. accounts T i = Some a \<longrightarrow> aID a = i \<and> aName a \<noteq> '''' \<and> currencies T (aCurrencyID a) \<noteq> None) \<and>
     (\<forall>i b. balances T i = Some b \<longrightarrow> bAccountID b = i \<and> in_i64 (bAmount b)) \<and>
     (\<forall>i t. transactions T i = Some t \<longrightarrow> tID t = i \<and> accounts T (tAccountID t) \<noteq> None \<and>
        (\<forall>p. tParentID t = Some p \<longrightarrow> transactions T p \<noteq> None))"

text \<open>The history of an account, and that its balance is the sum of it (modulo \<open>2 ^ 64\<close>).\<close>

definition historyOf :: "tables \<Rightarrow> int \<Rightarrow> int set" where
  "historyOf T a = {i. \<exists>t. transactions T i = Some t \<and> tAccountID t = a}"

definition txSum :: "tables \<Rightarrow> int \<Rightarrow> int" where
  "txSum T a = (\<Sum>i\<in>historyOf T a. tAmount (the (transactions T i)))"

definition balanced :: "tables \<Rightarrow> bool" where
  "balanced T \<longleftrightarrow> (\<forall>a b. balances T a = Some b \<longrightarrow> bAmount b = i64 (txSum T a))"

text \<open>No account is overdrawn.\<close>

definition solvent :: "tables \<Rightarrow> bool" where
  "solvent T \<longleftrightarrow> (\<forall>a b. balances T a = Some b \<longrightarrow> 0 \<le> bAmount b)"

text \<open>The money of a currency.\<close>

definition holdersOf :: "tables \<Rightarrow> string \<Rightarrow> int set" where
  "holdersOf T c = {i \<in> dom (balances T). \<exists>x. accounts T i = Some x \<and> aCurrencyID x = c}"

definition moneyIn :: "tables \<Rightarrow> string \<Rightarrow> int" where
  "moneyIn T c = (\<Sum>i\<in>holdersOf T c. bAmount (the (balances T i)))"

section \<open>Sums over updated tables\<close>

lemma sum_fun_upd:
  fixes f :: "'a \<Rightarrow> int"
  assumes "finite A" "x \<in> A" "\<And>y. y \<in> A \<Longrightarrow> y \<noteq> x \<Longrightarrow> g y = f y"
  shows "sum g A = sum f A + (g x - f x)"
proof -
  have "sum g A = g x + sum g (A - {x})" using assms by (simp add: sum.remove)
  also have "sum g (A - {x}) = sum f (A - {x})" using assms(3) by (auto intro: sum.cong)
  also have "sum f (A - {x}) = sum f A - f x" using assms by (simp add: sum_diff1)
  finally show ?thesis by simp
qed

lemma txSum_keeps [simp]:
  "txSum (putCurrency c d T) a = txSum T a" "txSum (putAccount x T) a = txSum T a"
  "txSum (putBalance b T) a = txSum T a" "txSum (putKey k u T) a = txSum T a"
  by (simp_all add: txSum_def historyOf_def)

lemma historyOf_put:
  "transactions T (tID t) = None \<Longrightarrow>
   historyOf (putTransaction t T) a =
     (if tAccountID t = a then insert (tID t) (historyOf T a) else historyOf T a)"
  by (auto simp: historyOf_def)

lemma finite_historyOf: "finite (dom (transactions T)) \<Longrightarrow> finite (historyOf T a)"
  by (rule finite_subset [of _ "dom (transactions T)"]) (auto simp: historyOf_def)

lemma txSum_put:
  assumes "transactions T (tID t) = None" "finite (dom (transactions T))"
  shows "txSum (putTransaction t T) a = txSum T a + (if tAccountID t = a then tAmount t else 0)"
proof -
  have new: "tID t \<notin> historyOf T a" using assms(1) by (simp add: historyOf_def)
  then have "(\<Sum>i\<in>historyOf T a. tAmount (the (transactions (putTransaction t T) i))) = txSum T a"
    unfolding txSum_def by (intro sum.cong) auto
  with new assms show ?thesis
    by (simp add: txSum_def [of "putTransaction t T"] historyOf_put finite_historyOf)
qed

lemma historyOf_no_account:
  "db_ok T \<Longrightarrow> accounts T a = None \<Longrightarrow> txSum T a = 0"
  by (force simp: db_ok_def txSum_def historyOf_def intro!: sum.neutral)

section \<open>Preservation by the ledger\<close>

lemma db_ok_empty: "db_ok emptyTables" "balanced emptyTables" "solvent emptyTables"
  by (simp_all add: db_ok_def balanced_def solvent_def emptyTables_def)

lemma db_ok_putKey [simp]: "db_ok (putKey k u T) = db_ok T"
  by (simp add: db_ok_def)

lemma db_ok_putCurrency:
  "db_ok T \<Longrightarrow> CurrencyIdRegex c \<Longrightarrow> 0 \<le> d \<Longrightarrow> db_ok (putCurrency c d T)"
  by (auto simp: db_ok_def)

lemma db_ok_putBalance:
  "db_ok T \<Longrightarrow> accounts T (bAccountID b) \<noteq> None \<Longrightarrow> in_i64 (bAmount b) \<Longrightarrow> db_ok (putBalance b T)"
  by (auto simp: db_ok_def)

lemma db_ok_putTransaction:
  "db_ok T \<Longrightarrow> accounts T (tAccountID t) \<noteq> None \<Longrightarrow>
   (\<forall>p. tParentID t = Some p \<longrightarrow> transactions T p \<noteq> None) \<Longrightarrow> db_ok (putTransaction t T)"
  by (auto simp: db_ok_def)

lemma db_ok_newAccount:
  "db_ok T \<Longrightarrow> aName a \<noteq> '''' \<Longrightarrow> currencies T (aCurrencyID a) \<noteq> None \<Longrightarrow> bAccountID b = aID a \<Longrightarrow>
   in_i64 (bAmount b) \<Longrightarrow> db_ok (putBalance b (putAccount a T))"
  by (auto simp: db_ok_def)

lemma in_i64_0 [simp]: "in_i64 0"
  by (simp add: in_i64_def)

lemma ledger_step_db_ok: "ledger_step T op T' \<Longrightarrow> db_ok T \<Longrightarrow> db_ok T'"
proof (induction rule: ledger_step.induct)
  case (open_account T k nm cu i u now)
  then show ?case by (intro db_ok_newAccount) auto
qed (auto intro!: db_ok_putCurrency db_ok_putTransaction db_ok_putBalance)

text \<open>A transfer of an account to itself is the one operation that loses the agreement.\<close>

fun selfTransfer :: "ledger_op \<Rightarrow> bool" where
  "selfTransfer (OpTransfer a a' amt k) \<longleftrightarrow> a = a'"
| "selfTransfer _ \<longleftrightarrow> False"

lemma i64_diff_left [simp]: "i64 (i64 x - y) = i64 (x - y)"
  using i64_add_left [of x "- y"] by simp

lemma ledger_step_balanced:
  assumes "ledger_step T op T'" "db_ok T" "balanced T" "\<not> selfTransfer op"
  shows "balanced T'"
  using assms
proof cases
  case (open_account k nm cu i u now)
  with assms(2,3) historyOf_no_account show ?thesis by (auto simp: balanced_def i64_id)
qed (auto simp: balanced_def txSum_put db_ok_def)

lemma ledger_step_key:
  assumes "ledger_step T op T'" "idempotency_keys T k \<noteq> None"
  shows "idempotency_keys T' k \<noteq> None"
  using assms by (cases) auto


text \<open>
  Solvency: a withdrawal checks it; a deposit or a transfer keeps it when the credited balance
  does not overflow and the amount is positive.
\<close>

fun creditFits :: "tables \<Rightarrow> ledger_op \<Rightarrow> bool" where
  "creditFits T (OpDeposit a amt k) \<longleftrightarrow>
     (\<forall>b. balances T a = Some b \<longrightarrow> in_i64 (bAmount b + amt))"
| "creditFits T (OpTransfer a a' amt k) \<longleftrightarrow>
     0 < amt \<and> (\<forall>b. balances T a' = Some b \<longrightarrow> in_i64 (bAmount b + amt))"
| "creditFits T _ \<longleftrightarrow> True"

lemma in_i64_between: "0 \<le> y \<Longrightarrow> y \<le> x \<Longrightarrow> in_i64 x \<Longrightarrow> in_i64 y"
  by (auto simp: in_i64_def)

lemma ledger_step_solvent:
  assumes "ledger_step T op T'" "db_ok T" "solvent T" "creditFits T op"
  shows "solvent T'"
  using assms
proof cases
  case (transfer k amt a b a' b' x x' i j u)
  with assms(2,3) have "0 \<le> bAmount b - amt" "bAmount b - amt \<le> bAmount b" "in_i64 (bAmount b)"
    "0 \<le> bAmount b' + amt"
    using assms(4) by (auto simp: db_ok_def solvent_def)
  moreover from this have "in_i64 (bAmount b - amt)" by (metis in_i64_between)
  ultimately show ?thesis using transfer assms(3,4) by (auto simp: solvent_def i64_id)
qed (auto simp: solvent_def i64_id)

lemma moneyIn_keeps [simp]:
  "moneyIn (putTransaction t T) c = moneyIn T c" "moneyIn (putKey k u T) c = moneyIn T c"
  "moneyIn (putCurrency x d T) c = moneyIn T c"
  by (simp_all add: moneyIn_def holdersOf_def)

lemma moneyIn_putBalance:
  assumes "finite (dom (balances T))" "balances T (bAccountID b) = Some b0"
    "accounts T (bAccountID b) = Some x"
  shows "moneyIn (putBalance b T) c =
    moneyIn T c + (if aCurrencyID x = c then bAmount b - bAmount b0 else 0)"
proof -
  have same: "holdersOf (putBalance b T) c = holdersOf T c"
    using assms(2) by (auto simp: holdersOf_def)
  have fin: "finite (holdersOf T c)"
    by (rule finite_subset [OF _ assms(1)]) (auto simp: holdersOf_def)
  show ?thesis
  proof (cases "aCurrencyID x = c")
    case True
    then have "bAccountID b \<in> holdersOf T c" using assms by (auto simp: holdersOf_def)
    from sum_fun_upd [OF fin this, of "\<lambda>i. bAmount (the (balances (putBalance b T) i))"
        "\<lambda>i. bAmount (the (balances T i))"]
    show ?thesis using True assms(2) unfolding moneyIn_def same by simp
  next
    case False
    then have "bAccountID b \<notin> holdersOf T c" using assms by (auto simp: holdersOf_def)
    then show ?thesis using False unfolding moneyIn_def same by (auto intro!: sum.cong)
  qed
qed

text \<open>What an operation adds to the money of a currency, as an amount.\<close>

fun minted :: "tables \<Rightarrow> ledger_op \<Rightarrow> string \<Rightarrow> int" where
  "minted T (OpDeposit a amt k) c =
     (if \<exists>x. accounts T a = Some x \<and> aCurrencyID x = c then amt else 0)"
| "minted T (OpWithdraw a amt k) c =
     (if \<exists>x. accounts T a = Some x \<and> aCurrencyID x = c then - amt else 0)"
| "minted T _ c = 0"

lemma moneyIn_open_account:
  assumes "db_ok T" "accounts T i = None" "bAccountID b = i" "aID a = i" "bAmount b = 0"
  shows "moneyIn (putBalance b (putAccount a T)) c = moneyIn T c"
proof -
  let ?T = "putBalance b (putAccount a T)"
  have no: "i \<notin> holdersOf T c" and fin: "finite (holdersOf T c)"
    using assms(1,2) by (auto simp: holdersOf_def db_ok_def intro: finite_subset [of _ "dom (accounts T)"])
  have H: "holdersOf ?T c = (if aCurrencyID a = c then insert i (holdersOf T c) else holdersOf T c)"
    using assms by (auto simp: holdersOf_def db_ok_def)
  have "(\<Sum>j\<in>holdersOf T c. bAmount (the (balances ?T j))) = moneyIn T c"
    unfolding moneyIn_def using no assms(3) by (intro sum.cong) auto
  then show ?thesis using no fin assms(3,5) by (simp add: moneyIn_def [of ?T] H)
qed

lemma i64_add_diff [simp]: "i64 (m + (i64 x - y)) = i64 (m + (x - y))"
  using i64_add_right [of "m - y" x] by (simp add: algebra_simps)

lemma i64_move [simp]: "i64 (m + (i64 (p - d) - p) + d) = i64 m"
proof -
  have "i64 (m + (i64 (p - d) - p) + d) = i64 ((m + d) + (i64 (p - d) - p))"
    by (simp only: ac_simps)
  then show ?thesis by simp
qed

lemma ledger_step_money:
  assumes "ledger_step T op T'" "db_ok T" "\<not> selfTransfer op"
  shows "i64 (moneyIn T' c) = i64 (moneyIn T c + minted T op c)"
proof -
  have fin: "finite (dom (balances T))" using assms(2) by (simp add: db_ok_def)
  show ?thesis
    using assms(1)
  proof cases
    case (open_account k nm cu i u now)
    then show ?thesis using assms(2)
      by (subst open_account(2), subst moneyIn_open_account [where i = i]) auto
  next
    case (deposit k amt a b i u)
    then show ?thesis using fin by (auto simp: moneyIn_putBalance)
  next
    case (withdraw k amt a b i u)
    then show ?thesis using fin by (auto simp: moneyIn_putBalance)
  next
    case (transfer k amt a b a' b' x x' i j u)
    with fin assms(3) show ?thesis by (auto simp: moneyIn_putBalance)
  qed auto
qed

text \<open>A transfer that fits moves the amount and touches no third account.\<close>

lemma ledger_transfer_exact:
  assumes "ledger_step T (OpTransfer a a' amt k) T'" "db_ok T" "a \<noteq> a'" "0 < amt"
    and "balances T a = Some b" "balances T a' = Some b'" "in_i64 (bAmount b' + amt)"
  shows "map_option bAmount (balances T' a) = Some (bAmount b - amt)"
    "map_option bAmount (balances T' a') = Some (bAmount b' + amt)"
    "c \<noteq> a \<Longrightarrow> c \<noteq> a' \<Longrightarrow> balances T' c = balances T c"
    "moneyIn T' cu = moneyIn T cu" "amt \<le> bAmount b" "0 \<le> bAmount b - amt"
    "i64 (bAmount b - amt) = bAmount b - amt"
proof -
  from assms(1,5,6) have fits: "amt \<le> bAmount b" by cases auto
  have "in_i64 (bAmount b)" using assms(2,5) by (simp add: db_ok_def)
  then have "in_i64 (bAmount b - amt)" using fits assms(4) by (simp add: in_i64_def)
  then have i: "i64 (bAmount b - amt) = bAmount b - amt" "i64 (bAmount b' + amt) = bAmount b' + amt"
    using assms(7) by (simp_all add: i64_id)
  have fin: "finite (dom (balances T))" using assms(2) by (simp add: db_ok_def)
  from assms(1) show "map_option bAmount (balances T' a) = Some (bAmount b - amt)"
    "map_option bAmount (balances T' a') = Some (bAmount b' + amt)"
    "c \<noteq> a \<Longrightarrow> c \<noteq> a' \<Longrightarrow> balances T' c = balances T c"
    "moneyIn T' cu = moneyIn T cu"
    using assms(3,5,6) i fin by (cases, auto simp: moneyIn_putBalance)+
  show "amt \<le> bAmount b" "0 \<le> bAmount b - amt" "i64 (bAmount b - amt) = bAmount b - amt"
    using fits i by simp_all
qed

end
