(* ===== verification/Bank_Engine.thy ===== *)
theory Bank_Engine
  imports Bank_Store "HOL-Library.AList"
begin

text \<open>
  A reference engine for the bank's statements: the tables as association lists, each statement
  as an executable function that checks the constraints of the migrations and raises the SQL
  states PostgreSQL documents. It shows that the laws of \<open>postgres\<close> and \<open>postgres_up\<close> can hold
  together, and it is what concrete runs of the service are evaluated on.
\<close>

section \<open>Availability\<close>

text \<open>
  The laws of a server that is up: a statement whose arguments fit the columns and whose
  constraints hold succeeds, a query of a missing row answers \<open>ErrNoRows\<close>, and a transaction
  commits exactly when its closure returns no error. Identifiers handed out are unused.
\<close>

locale postgres_up = postgres +
  assumes next_id_fresh: "accounts (tabs w) (fst (NextID B w)) = None"
      "balances (tabs w) (fst (NextID B w)) = None" "transactions (tabs w) (fst (NextID B w)) = None"
    and up_insert_currency: "pg_text cid \<Longrightarrow> pg_int4 d \<Longrightarrow>
      (case Exec B sqlInsertCurrency [PText cid, PInt d] w of
         (Inr n, w') \<Rightarrow> currencies (tabs w) cid = None
       | (Inl e, w') \<Rightarrow> currencies (tabs w) cid \<noteq> None \<and> errors_As_PgError e = Some ''23505'')"
    and up_insert_account: "pg_text nm \<Longrightarrow> accounts (tabs w) i = None \<Longrightarrow> currencies (tabs w) cu \<noteq> None \<Longrightarrow>
      \<exists>n w'. Exec B sqlInsertAccount [PInt i, PText nm, PText cu, PTime c] w = (Inr n, w')"
    and up_insert_balance: "balances (tabs w) i = None \<Longrightarrow> accounts (tabs w) i \<noteq> None \<Longrightarrow>
      \<exists>n w'. Exec B sqlInsertZeroBalance [PInt i, PInt 0, PTime u] w = (Inr n, w')"
    and up_insert_key: "pg_text k \<Longrightarrow>
      \<exists>n w'. Exec B sqlInsertIdempotencyKey [PText k, PTime u] w = (Inr n, w')"
    and up_update_balance: "in_i64 a \<Longrightarrow>
      \<exists>n w'. Exec B sqlUpdateBalance [PInt a, PTime u, PInt i] w = (Inr n, w')"
    and up_insert_transaction: "transactions (tabs w) i = None \<Longrightarrow> accounts (tabs w) a \<noteq> None \<Longrightarrow>
      (\<And>q. par = Some q \<Longrightarrow> transactions (tabs w) q \<noteq> None) \<Longrightarrow> pg_int4 ty \<Longrightarrow> in_i64 am \<Longrightarrow>
      \<exists>n w'. Exec B sqlInsertTransaction
        [PInt i, PInt a, PInt ty, PInt am, PTime ts, fromOptInt par] w = (Inr n, w')"
    and up_currency_exists: "pg_text cid \<Longrightarrow>
      \<exists>row w'. QueryRow B sqlCurrencyExists [PText cid] w = (Inr row, w')"
    and up_account_currency: "\<exists>w'. QueryRow B sqlAccountCurrencyID [PInt i] w =
      ((case accounts (tabs w) i of None \<Rightarrow> Inl ErrNoRows | Some a \<Rightarrow> Inr [PText (aCurrencyID a)]), w')"
    and up_balance_row: "\<exists>w'. QueryRow B sqlBalanceWithLock [PInt i] w =
      ((case balances (tabs w) i of None \<Rightarrow> Inl ErrNoRows
        | Some b \<Rightarrow> Inr [PInt i, PInt (bAmount b), PTime (bUpdatedAt b)]), w')"
    and up_begin_tx: "\<exists>w1 w'. tabs w1 = tabs w \<and> BeginTxFunc B f w = (fst (f w1), w') \<and>
      tabs w' = (case fst (f w1) of Inl e \<Rightarrow> tabs w | Inr x \<Rightarrow> tabs (snd (f w1)))"
    and up_currencies: "\<exists>rows w'. Query B sqlGetCurrencies [] w = (Inr rows, w') \<and>
      set rows = {[PText c, PInt d] |c d. currencies (tabs w) c = Some d} \<and> distinct rows"
    and up_account_info: "\<exists>rows w'. Query B sqlAccountInfo [PInt i] w = (Inr rows, w') \<and>
      set rows = {[PInt i, PText (aName a), PTime (aCreatedAt a), PText (aCurrencyID a), PInt d,
                   PInt (bAmount b), PTime (bUpdatedAt b)] |a b d.
                  accounts (tabs w) i = Some a \<and> balances (tabs w) i = Some b \<and>
                  currencies (tabs w) (aCurrencyID a) = Some d} \<and> distinct rows"
    and up_transactions: "\<exists>rows w'. Query B sqlTransactionsByAccountID [PInt a] w = (Inr rows, w') \<and>
      set rows = {[PInt i, PInt a, PInt (tTxType t), PInt (tAmount t), PTime (tTimestamp t),
                   fromOptInt (tParentID t)] |i t. transactions (tabs w) i = Some t \<and> tAccountID t = a} \<and>
      distinct rows"

section \<open>The engine\<close>

record engine =
  eCurrencies :: "(string \<times> int) list"
  eAccounts :: "(int \<times> Account) list"
  eBalances :: "(int \<times> Balance) list"
  eTransactions :: "(int \<times> Transaction) list"
  eKeys :: "(string \<times> Time) list"
  eClock :: Time

definition newEngine :: engine where
  "newEngine = \<lparr>eCurrencies = [], eAccounts = [], eBalances = [], eTransactions = [], eKeys = [],
     eClock = 0\<rparr>"

definition engineTabs :: "engine \<Rightarrow> tables" where
  "engineTabs w = \<lparr>currencies = map_of (eCurrencies w), accounts = map_of (eAccounts w),
     balances = map_of (eBalances w), transactions = map_of (eTransactions w),
     idempotency_keys = map_of (eKeys w)\<rparr>"

abbreviation uniqueViolation :: error where
  "uniqueViolation \<equiv> PgError ''23505'' ''duplicate key value violates unique constraint''"

abbreviation foreignKeyViolation :: error where
  "foreignKeyViolation \<equiv> PgError ''23503'' ''violates foreign key constraint''"

abbreviation outOfRange :: error where
  "outOfRange \<equiv> PgError ''22003'' ''numeric value out of range''"

abbreviation badStatement :: error where
  "badStatement \<equiv> PgError ''42601'' ''syntax error''"

fun execInsertCurrency :: "pgval list \<Rightarrow> (engine, error, int) prog" where
  "execInsertCurrency [PText cid, PInt d] w =
     (if \<not> pg_int4 d then (Inl outOfRange, w)
      else if map_of (eCurrencies w) cid \<noteq> None then (Inl uniqueViolation, w)
      else (Inr 1, w\<lparr>eCurrencies := (cid, d) # eCurrencies w\<rparr>))"
| "execInsertCurrency _ w = (Inl badStatement, w)"

fun execInsertAccount :: "pgval list \<Rightarrow> (engine, error, int) prog" where
  "execInsertAccount [PInt i, PText nm, PText cu, PTime c] w =
     (if map_of (eAccounts w) i \<noteq> None then (Inl uniqueViolation, w)
      else if map_of (eCurrencies w) cu = None then (Inl foreignKeyViolation, w)
      else (Inr 1, w\<lparr>eAccounts :=
             (i, \<lparr>aID = i, aName = nm, aCurrencyID = cu, aCreatedAt = c\<rparr>) # eAccounts w\<rparr>))"
| "execInsertAccount _ w = (Inl badStatement, w)"

fun execInsertBalance :: "pgval list \<Rightarrow> (engine, error, int) prog" where
  "execInsertBalance [PInt i, PInt a, PTime u] w =
     (if map_of (eBalances w) i \<noteq> None then (Inl uniqueViolation, w)
      else if map_of (eAccounts w) i = None then (Inl foreignKeyViolation, w)
      else (Inr 1, w\<lparr>eBalances :=
             (i, \<lparr>bAccountID = i, bAmount = a, bUpdatedAt = u\<rparr>) # eBalances w\<rparr>))"
| "execInsertBalance _ w = (Inl badStatement, w)"

fun execInsertKey :: "pgval list \<Rightarrow> (engine, error, int) prog" where
  "execInsertKey [PText k, PTime u] w =
     (if map_of (eKeys w) k \<noteq> None then (Inr 0, w) else (Inr 1, w\<lparr>eKeys := (k, u) # eKeys w\<rparr>))"
| "execInsertKey _ w = (Inl badStatement, w)"

fun execUpdateBalance :: "pgval list \<Rightarrow> (engine, error, int) prog" where
  "execUpdateBalance [PInt a, PTime u, PInt i] w =
     (if map_of (eBalances w) i = None then (Inr 0, w)
      else (Inr 1, w\<lparr>eBalances :=
             AList.update i \<lparr>bAccountID = i, bAmount = a, bUpdatedAt = u\<rparr> (eBalances w)\<rparr>))"
| "execUpdateBalance _ w = (Inl badStatement, w)"

fun insertTransactionRow :: "Transaction \<Rightarrow> (engine, error, int) prog" where
  "insertTransactionRow t w =
     (if map_of (eTransactions w) (tID t) \<noteq> None then (Inl uniqueViolation, w)
      else if map_of (eAccounts w) (tAccountID t) = None then (Inl foreignKeyViolation, w)
      else if (case tParentID t of None \<Rightarrow> False | Some p \<Rightarrow> map_of (eTransactions w) p = None)
        then (Inl foreignKeyViolation, w)
      else (Inr 1, w\<lparr>eTransactions := (tID t, t) # eTransactions w\<rparr>))"

definition execInsertTransaction :: "pgval list \<Rightarrow> (engine, error, int) prog" where
  "execInsertTransaction args w =
     (case rowToTransaction args of
        Inl e \<Rightarrow> (Inl badStatement, w)
      | Inr t \<Rightarrow> insertTransactionRow t w)"

definition engineExec :: "string \<Rightarrow> pgval list \<Rightarrow> (engine, error, int) prog" where
  "engineExec sql args =
     (if sql = sqlInsertCurrency then execInsertCurrency args
      else if sql = sqlInsertAccount then execInsertAccount args
      else if sql = sqlInsertZeroBalance then execInsertBalance args
      else if sql = sqlInsertIdempotencyKey then execInsertKey args
      else if sql = sqlUpdateBalance then execUpdateBalance args
      else if sql = sqlInsertTransaction then execInsertTransaction args
      else failp badStatement)"

definition rowsCurrencies :: "engine \<Rightarrow> pgval list list" where
  "rowsCurrencies w = map (\<lambda>(c, d). [PText c, PInt d]) (AList.clearjunk (eCurrencies w))"

definition rowsAccountInfo :: "engine \<Rightarrow> int \<Rightarrow> pgval list list" where
  "rowsAccountInfo w i =
     (case (map_of (eAccounts w) i, map_of (eBalances w) i) of
        (Some a, Some b) \<Rightarrow>
          (case map_of (eCurrencies w) (aCurrencyID a) of
             None \<Rightarrow> []
           | Some d \<Rightarrow> [[PInt i, PText (aName a), PTime (aCreatedAt a), PText (aCurrencyID a), PInt d,
                         PInt (bAmount b), PTime (bUpdatedAt b)]])
      | _ \<Rightarrow> [])"

definition rowsTransactions :: "engine \<Rightarrow> int \<Rightarrow> pgval list list" where
  "rowsTransactions w a =
     map (\<lambda>(i, t). [PInt i, PInt a, PInt (tTxType t), PInt (tAmount t), PTime (tTimestamp t),
                    fromOptInt (tParentID t)])
       (filter (\<lambda>(i, t). tAccountID t = a) (AList.clearjunk (eTransactions w)))"

definition engineQuery :: "string \<Rightarrow> pgval list \<Rightarrow> (engine, error, pgval list list) prog" where
  "engineQuery sql args w =
     (if sql = sqlGetCurrencies then (Inr (rowsCurrencies w), w)
      else
        (case args of
           [PInt i] \<Rightarrow>
             if sql = sqlAccountInfo then (Inr (rowsAccountInfo w i), w)
             else if sql = sqlTransactionsByAccountID then (Inr (rowsTransactions w i), w)
             else (Inl badStatement, w)
         | _ \<Rightarrow> (Inl badStatement, w)))"

fun engineRow :: "string \<Rightarrow> pgval list \<Rightarrow> engine \<Rightarrow> error + pgval list" where
  "engineRow sql [PText c] w =
     (if sql = sqlCurrencyExists then Inr [PBool (map_of (eCurrencies w) c \<noteq> None)] else Inl badStatement)"
| "engineRow sql [PInt i] w =
     (if sql = sqlAccountCurrencyID then
        (case map_of (eAccounts w) i of None \<Rightarrow> Inl ErrNoRows | Some a \<Rightarrow> Inr [PText (aCurrencyID a)])
      else if sql = sqlBalanceWithLock then
        (case map_of (eBalances w) i of None \<Rightarrow> Inl ErrNoRows
         | Some b \<Rightarrow> Inr [PInt i, PInt (bAmount b), PTime (bUpdatedAt b)])
      else Inl badStatement)"
| "engineRow sql args w = Inl badStatement"

definition engineBeginTx :: "(engine, error, int list) prog \<Rightarrow> (engine, error, int list) prog" where
  "engineBeginTx f w =
     (case f w of
        (Inr x, w1) \<Rightarrow> (Inr x, w1)
      | (Inl e, w1) \<Rightarrow> (Inl e, w\<lparr>eClock := eClock w1\<rparr>))"

text \<open>An unused identifier, and a clock that advances with each reading.\<close>

definition engineNextID :: "engine \<Rightarrow> int \<times> engine" where
  "engineNextID w =
     (fold max (map fst (eAccounts w) @ map fst (eBalances w) @ map fst (eTransactions w)) 0 + 1, w)"

definition engineNow :: "engine \<Rightarrow> Time \<times> engine" where
  "engineNow w = (eClock w + 1, w\<lparr>eClock := eClock w + 1\<rparr>)"

definition engineB :: "engine backend" where
  "engineB = \<lparr>Exec = engineExec, Query = engineQuery, QueryRow = (\<lambda>sql args w. (engineRow sql args w, w)),
     BeginTxFunc = engineBeginTx, NextID = engineNextID, NowUTC = engineNow, TimeNow = engineNow\<rparr>"


section \<open>The engine satisfies the laws\<close>

lemmas sql_defs = sqlInsertCurrency_def sqlGetCurrencies_def sqlCurrencyExists_def sqlInsertAccount_def
  sqlInsertZeroBalance_def sqlAccountInfo_def sqlAccountCurrencyID_def sqlInsertIdempotencyKey_def
  sqlBalanceWithLock_def sqlUpdateBalance_def sqlInsertTransaction_def sqlTransactionsByAccountID_def

lemma engineExec_stmts [simp]:
  "engineExec sqlInsertCurrency = execInsertCurrency"
  "engineExec sqlInsertAccount = execInsertAccount"
  "engineExec sqlInsertZeroBalance = execInsertBalance"
  "engineExec sqlInsertIdempotencyKey = execInsertKey"
  "engineExec sqlUpdateBalance = execUpdateBalance"
  "engineExec sqlInsertTransaction = execInsertTransaction"
  by (simp_all add: engineExec_def fun_eq_iff) (simp_all add: sql_defs)

lemma sqlBalance_distinct [simp]: "sqlBalanceWithLock \<noteq> sqlAccountCurrencyID"
  by (simp add: sql_defs)

lemma engineRow_stmts [simp]:
  "engineRow sqlCurrencyExists [PText c] w = Inr [PBool (map_of (eCurrencies w) c \<noteq> None)]"
  "engineRow sqlAccountCurrencyID [PInt i] w =
    (case map_of (eAccounts w) i of None \<Rightarrow> Inl ErrNoRows | Some a \<Rightarrow> Inr [PText (aCurrencyID a)])"
  "engineRow sqlBalanceWithLock [PInt i] w =
    (case map_of (eBalances w) i of None \<Rightarrow> Inl ErrNoRows
     | Some b \<Rightarrow> Inr [PInt i, PInt (bAmount b), PTime (bUpdatedAt b)])"
  by simp_all

lemma engineQuery_stmts [simp]:
  "engineQuery sqlGetCurrencies args w = (Inr (rowsCurrencies w), w)"
  "engineQuery sqlAccountInfo [PInt i] w = (Inr (rowsAccountInfo w i), w)"
  "engineQuery sqlTransactionsByAccountID [PInt i] w = (Inr (rowsTransactions w i), w)"
  by (simp_all add: engineQuery_def) (simp_all add: sql_defs)

lemma engineQuery_reads [simp]: "snd (engineQuery sql args w) = w"
  by (simp add: engineQuery_def split: list.splits pgval.splits)

lemma engineB_sel [simp]:
  "Exec engineB = engineExec" "Query engineB = engineQuery"
  "QueryRow engineB = (\<lambda>sql args w. (engineRow sql args w, w))"
  "BeginTxFunc engineB = engineBeginTx" "NextID engineB = engineNextID"
  "NowUTC engineB = engineNow" "TimeNow engineB = engineNow"
  by (simp_all add: engineB_def)

lemma engineTabs_sel [simp]:
  "currencies (engineTabs w) = map_of (eCurrencies w)" "accounts (engineTabs w) = map_of (eAccounts w)"
  "balances (engineTabs w) = map_of (eBalances w)"
  "transactions (engineTabs w) = map_of (eTransactions w)"
  "idempotency_keys (engineTabs w) = map_of (eKeys w)"
  by (simp_all add: engineTabs_def)

lemma engineTabs_eqI: "currencies T = currencies T' \<Longrightarrow> accounts T = accounts T' \<Longrightarrow>
    balances T = balances T' \<Longrightarrow> transactions T = transactions T' \<Longrightarrow>
    idempotency_keys T = idempotency_keys T' \<Longrightarrow> T = (T' :: tables)"
  by simp

lemma rowToTransaction_args [simp]:
  "rowToTransaction [PInt i, PInt a, PInt ty, PInt am, PTime ts, fromOptInt par] =
    Inr \<lparr>tID = i, tAccountID = a, tTxType = ty, tAmount = am, tTimestamp = ts, tParentID = par\<rparr>"
  by (cases par) (simp_all add: rowToTransaction_def)

lemma engineExec_failed: "engineExec sql args w = (Inl e, w') \<Longrightarrow> w' = w"
  unfolding engineExec_def
  by (auto elim!: execInsertCurrency.elims execInsertAccount.elims execInsertBalance.elims
      execInsertKey.elims execUpdateBalance.elims insertTransactionRow.elims
      simp: execInsertTransaction_def split: if_splits sum.splits)

lemma fold_max_ge: "x \<in> set xs \<or> x \<le> m \<Longrightarrow> (x::int) \<le> fold max xs m"
  by (induction xs arbitrary: m) (auto simp: le_max_iff_disj)

lemma engineNextID_unused:
  "map_of (eAccounts w) (fst (engineNextID w)) = None"
  "map_of (eBalances w) (fst (engineNextID w)) = None"
  "map_of (eTransactions w) (fst (engineNextID w)) = None"
proof -
  let ?L = "map fst (eAccounts w) @ map fst (eBalances w) @ map fst (eTransactions w)"
  have "fold max ?L 0 + 1 \<notin> set ?L"
    using fold_max_ge [of "fold max ?L 0 + 1" ?L 0] by auto
  then show "map_of (eAccounts w) (fst (engineNextID w)) = None"
    "map_of (eBalances w) (fst (engineNextID w)) = None"
    "map_of (eTransactions w) (fst (engineNextID w)) = None"
    by (auto simp: engineNextID_def map_of_eq_None_iff)
qed

lemma engineBeginTx_cases:
  "engineBeginTx f w = (r, w') \<Longrightarrow>
   r = fst (f w) \<and> engineTabs w' = (case fst (f w) of Inl e \<Rightarrow> engineTabs w | Inr x \<Rightarrow> engineTabs (snd (f w)))"
  by (auto simp: engineBeginTx_def engineTabs_def split: prod.splits sum.splits)

lemma rowsCurrencies_set:
  "set (rowsCurrencies w) = {[PText c, PInt d] |c d. map_of (eCurrencies w) c = Some d}"
  "distinct (rowsCurrencies w)"
proof -
  let ?L = "AList.clearjunk (eCurrencies w)"
  have d: "distinct (map fst ?L)" by (rule distinct_clearjunk)
  have m: "(c, d) \<in> set ?L \<longleftrightarrow> map_of (eCurrencies w) c = Some d" for c d
    using map_of_eq_Some_iff [OF d] by (simp add: map_of_clearjunk)
  show "set (rowsCurrencies w) = {[PText c, PInt d] |c d. map_of (eCurrencies w) c = Some d}"
    using m by (force simp: rowsCurrencies_def image_def)
  have "inj_on (\<lambda>(c, d). [PText c, PInt d]) (set ?L)" by (auto simp: inj_on_def)
  then show "distinct (rowsCurrencies w)"
    using d by (simp add: rowsCurrencies_def distinct_map)
qed

lemma rowsTransactions_set:
  "set (rowsTransactions w a) =
    {[PInt i, PInt a, PInt (tTxType t), PInt (tAmount t), PTime (tTimestamp t), fromOptInt (tParentID t)]
      |i t. map_of (eTransactions w) i = Some t \<and> tAccountID t = a}"
  "distinct (rowsTransactions w a)"
proof -
  let ?L = "AList.clearjunk (eTransactions w)"
  have d: "distinct (map fst ?L)" by (rule distinct_clearjunk)
  have m: "(i, t) \<in> set ?L \<longleftrightarrow> map_of (eTransactions w) i = Some t" for i t
    using map_of_eq_Some_iff [OF d] by (simp add: map_of_clearjunk)
  show "set (rowsTransactions w a) =
    {[PInt i, PInt a, PInt (tTxType t), PInt (tAmount t), PTime (tTimestamp t), fromOptInt (tParentID t)]
      |i t. map_of (eTransactions w) i = Some t \<and> tAccountID t = a}"
    using m by (force simp: rowsTransactions_def image_def)
  have "distinct ?L" using d by (simp add: distinct_map)
  moreover have "inj_on (\<lambda>(i, t). [PInt i, PInt a, PInt (tTxType t), PInt (tAmount t),
      PTime (tTimestamp t), fromOptInt (tParentID t)]) (set ?L)"
    using eq_key_imp_eq_value [OF d] by (auto simp: inj_on_def)
  ultimately show "distinct (rowsTransactions w a)"
    unfolding rowsTransactions_def distinct_map by (auto intro: inj_on_subset)
qed

lemma engineTabs_clock [simp]: "engineTabs (w\<lparr>eClock := t\<rparr>) = engineTabs w"
  by (simp add: engineTabs_def)

interpretation engine: postgres engineB engineTabs
proof unfold_locales
  fix sql args w rows w'
  assume "Query engineB sql args w = (rows, w')"
  then show "engineTabs w' = engineTabs w" using engineQuery_reads [of sql args w] by simp
next
  fix f :: "(engine, error, int list) prog" and w w' r
  assume "BeginTxFunc engineB f w = (r, w')"
  then have r: "r = fst (f w) \<and>
      engineTabs w' = (case fst (f w) of Inl e \<Rightarrow> engineTabs w | Inr x \<Rightarrow> engineTabs (snd (f w)))"
    using engineBeginTx_cases by simp
  then show "(\<exists>e. r = Inl e) \<and> engineTabs w' = engineTabs w \<or>
      (\<exists>w1 x w2. engineTabs w1 = engineTabs w \<and> f w1 = (Inr x, w2) \<and> engineTabs w' = engineTabs w2 \<and>
         (r = Inr x \<or> (\<exists>e. r = Inl e)))"
    by (cases "f w") (auto split: sum.splits)
qed (auto simp: engineNextID_def engineNow_def execInsertTransaction_def update_conv'
      intro!: engineTabs_eqI dest: engineExec_failed split: if_splits option.splits)

interpretation engine: postgres_up engineB engineTabs
proof unfold_locales
  fix w :: engine and f :: "(engine, error, int list) prog"
  show "\<exists>w1 w'. engineTabs w1 = engineTabs w \<and> BeginTxFunc engineB f w = (fst (f w1), w') \<and>
      engineTabs w' = (case fst (f w1) of Inl e \<Rightarrow> engineTabs w | Inr x \<Rightarrow> engineTabs (snd (f w1)))"
    using engineBeginTx_cases [of f w] by (metis engineB_sel(4) surj_pair)
qed (auto simp: engineNextID_unused execInsertTransaction_def rowsCurrencies_set rowsTransactions_set
      rowsAccountInfo_def split: option.splits)

end
