(* ===== verification/Bank_Safety.thy ===== *)
theory Bank_Safety
  imports Bank_Invariants Bank_Engine
begin

text \<open>
  The safety properties of the bank, for any backend with the laws of \<open>postgres\<close>: statements and
  commits may fail at any point, and a commit may take effect although the call reports an error.
  The lemmas lift the invariants of the ledger to sequences of calls; the witnesses run the
  service on the reference engine.
\<close>

section \<open>Lifting\<close>

fun keyOf :: "request \<Rightarrow> string option" where
  "keyOf (ReqCreateAccount q) = Some (caIdempotencyKey q)"
| "keyOf (ReqDeposit q) = Some (dpIdempotencyKey q)"
| "keyOf (ReqWithdraw q) = Some (wdIdempotencyKey q)"
| "keyOf (ReqTransfer q) = Some (trIdempotencyKey q)"
| "keyOf _ = None"

fun toItself :: "request \<Rightarrow> bool" where
  "toItself (ReqTransfer q) = (trAccountIDFrom q = trAccountIDTo q)"
| "toItself _ = False"

lemma asks_for_self: "asks_for q op \<Longrightarrow> selfTransfer op = toItself q"
  by (cases q) auto

lemma asks_for_key:
  assumes "asks_for q op" "ledger_step T op T'" "keyOf q = Some k"
  shows "idempotency_keys T k = None \<and> idempotency_keys T' k \<noteq> None"
  using assms(2,1,3) by (cases; cases q) auto

context postgres
begin

lemma serve_invariant:
  assumes "serve B q w = (e, w')" "I (tabs w)"
    and "\<And>op T T'. asks_for q op \<Longrightarrow> ledger_step T op T' \<Longrightarrow> I T \<Longrightarrow> I T'"
  shows "I (tabs w')"
  using serve_refines [OF assms(1)] assms(2,3) by auto

lemma serveAll_invariant:
  assumes "serveAll B qs w = (es, w')" "list_all Q qs" "I (tabs w)"
    and step: "\<And>q op T T'. Q q \<Longrightarrow> asks_for q op \<Longrightarrow> ledger_step T op T' \<Longrightarrow> I T \<Longrightarrow> I T'"
  shows "I (tabs w')"
  using assms(1-3)
proof (induction qs arbitrary: w es)
  case (Cons q qs)
  obtain e w1 es1 where w1: "serve B q w = (e, w1)" "serveAll B qs w1 = (es1, w')"
    using Cons.prems(1) by (auto simp: Let_def split: prod.splits)
  have "I (tabs w1)"
    using serve_invariant [where I = I, OF w1(1) Cons.prems(3)] step Cons.prems(2) by auto
  with Cons.IH [OF w1(2)] Cons.prems(2) show ?case by simp
qed simp

lemma serve_key_used:
  assumes "serve B q w = (e, w')" "keyOf q = Some k" "idempotency_keys (tabs w) k \<noteq> None"
  shows "e \<noteq> None \<and> tabs w' = tabs w"
proof -
  have "\<not> read_only q" using assms(2) by (cases q) auto
  then show ?thesis using serve_refines [OF assms(1)] asks_for_key [OF _ _ assms(2)] assms(3) by metis
qed

lemma serveAll_keeps_key:
  assumes "serveAll B qs w = (es, w')" "idempotency_keys (tabs w) k \<noteq> None"
  shows "idempotency_keys (tabs w') k \<noteq> None"
  using serveAll_invariant [where I = "\<lambda>T. idempotency_keys T k \<noteq> None" and Q = "\<lambda>_. True",
      OF assms(1) _ assms(2)] ledger_step_key
  by (auto simp: list_all_def)

lemma serve_uses_key:
  assumes "serve B q w = (e, w')" "keyOf q = Some k" "e = None \<or> tabs w' \<noteq> tabs w"
  shows "idempotency_keys (tabs w') k \<noteq> None"
proof -
  have "\<not> read_only q" using assms(2) by (cases q) auto
  then show ?thesis using serve_refines [OF assms(1)] asks_for_key [OF _ _ assms(2)] assms(3) by metis
qed

end

section \<open>Properties\<close>

text \<open>
  C2: Every call of the service, on any backend with the laws of PostgreSQL, either leaves the
  tables as they were (and then it reported an error or was a read) or performed exactly the one
  ledger operation the request asks for: no partial effect is ever visible.
\<close>

theorem service_refines_ledger:
  assumes "postgres B tabs" "serve B q w = (e, w')"
  shows "tabs w' = tabs w \<and> (e \<noteq> None \<or> read_only q) \<or>
    (\<exists>op. asks_for q op \<and> ledger_step (tabs w) op (tabs w'))"
  using postgres.serve_refines [OF assms] .

text \<open>A run of the engine: two currencies' worth of accounts and some money.\<close>

definition demoSetup :: "request list" where
  "demoSetup =
     [ReqCreateCurrency \<lparr>ccID = ''USD'', ccDecimals = 2\<rparr>,
      ReqCreateAccount \<lparr>caName = ''ann'', caCurrency = ''USD'', caIdempotencyKey = ''k1''\<rparr>,
      ReqCreateAccount \<lparr>caName = ''bob'', caCurrency = ''USD'', caIdempotencyKey = ''k2''\<rparr>,
      ReqDeposit \<lparr>dpAccountID = 1, dpAmount = 100, dpIdempotencyKey = ''k3''\<rparr>]"

definition demo :: engine where
  "demo = snd (serveAll engineB demoSetup newEngine)"

theorem service_refines_ledger_witness:
  "postgres engineB engineTabs \<and>
   (engineTabs (snd (serve engineB (hd demoSetup) newEngine)) = engineTabs newEngine \<and>
      (fst (serve engineB (hd demoSetup) newEngine) \<noteq> None \<or> read_only (hd demoSetup)) \<or>
    (\<exists>op. asks_for (hd demoSetup) op \<and>
       ledger_step (engineTabs newEngine) op (engineTabs (snd (serve engineB (hd demoSetup) newEngine)))))"
  using service_refines_ledger [OF engine.postgres_axioms, of "hd demoSetup" newEngine
      "fst (serve engineB (hd demoSetup) newEngine)" "snd (serve engineB (hd demoSetup) newEngine)"]
    engine.postgres_axioms by simp

text \<open>
  C19: The tables keep their integrity through any sequence of calls: every account has exactly
  one balance row, which fits an \<open>int64\<close>, its currency exists and is well formed, and every
  transaction belongs to an existing account and to an existing parent.
\<close>

theorem calls_keep_integrity:
  assumes "postgres B tabs" "serveAll B qs w = (es, w')" "db_ok (tabs w)"
  shows "db_ok (tabs w')"
  using postgres.serveAll_invariant [where I = db_ok and Q = "\<lambda>_. True", OF assms(1,2) _ assms(3)]
    ledger_step_db_ok by (simp add: list_all_def)

lemma serveAll_pair: "serveAll B qs w = (fst (serveAll B qs w), snd (serveAll B qs w))"
  by simp

lemma newEngine_tabs [simp]: "engineTabs newEngine = emptyTables"
  by (simp add: engineTabs_def newEngine_def emptyTables_def)

theorem calls_keep_integrity_witness: "db_ok (engineTabs demo)"
  unfolding demo_def
  by (rule calls_keep_integrity [OF engine.postgres_axioms serveAll_pair]) (simp add: db_ok_empty)

text \<open>
  C7: Books agree with the history: if no request transfers from an account to itself, then after
  any sequence of calls every balance is the sum of the amounts of the account's transactions,
  in the arithmetic of \<open>int64\<close>.
\<close>

theorem balances_match_history:
  assumes "postgres B tabs" "serveAll B qs w = (es, w')"
    and "db_ok (tabs w)" "balanced (tabs w)" "list_all (\<lambda>q. \<not> toItself q) qs"
  shows "balanced (tabs w')"
proof -
  have "db_ok (tabs w') \<and> balanced (tabs w')"
    using postgres.serveAll_invariant [where I = "\<lambda>T. db_ok T \<and> balanced T" and Q = "\<lambda>q. \<not> toItself q",
        OF assms(1,2,5)] assms(3,4) ledger_step_db_ok ledger_step_balanced asks_for_self
    by blast
  then show ?thesis by simp
qed

theorem balances_match_history_witness: "balanced (engineTabs demo)"
  unfolding demo_def
  by (rule balances_match_history [OF engine.postgres_axioms serveAll_pair])
    (simp_all add: db_ok_empty demoSetup_def)

text \<open>
  C4: A request takes effect at most once. Once a call with an idempotency key has succeeded, or
  has changed the tables at all (a commit whose confirmation was lost included), every later
  request with that key, whatever calls come between, reports an error and changes nothing.
\<close>

theorem key_takes_effect_once:
  assumes "postgres B tabs"
    and first: "serve B q w = (e, w1)" "keyOf q = Some k" "e = None \<or> tabs w1 \<noteq> tabs w"
    and between: "serveAll B qs w1 = (es, w2)"
    and again: "serve B q' w2 = (e', w3)" "keyOf q' = Some k"
  shows "e' \<noteq> None \<and> tabs w3 = tabs w2"
  using postgres.serve_uses_key [OF assms(1) first] postgres.serveAll_keeps_key [OF assms(1) between]
    postgres.serve_key_used [OF assms(1) again] by blast


definition depositK3 :: request where
  "depositK3 = ReqDeposit \<lparr>dpAccountID = 1, dpAmount = 100, dpIdempotencyKey = ''k3''\<rparr>"

definition withdrawK3 :: request where
  "withdrawK3 = ReqWithdraw \<lparr>wdAccountID = 1, wdAmount = 60, wdIdempotencyKey = ''k3''\<rparr>"

theorem key_takes_effect_once_witness:
  "let w1 = snd (serve engineB depositK3 (snd (serveAll engineB (take 3 demoSetup) newEngine)));
       w2 = snd (serveAll engineB [ReqGetCurrencies] w1)
   in fst (serve engineB withdrawK3 w2) \<noteq> None \<and>
      engineTabs (snd (serve engineB withdrawK3 w2)) = engineTabs w2"
  unfolding Let_def
  by (rule key_takes_effect_once [OF engine.postgres_axioms prod.collapse [symmetric] _ _
        prod.collapse [symmetric] prod.collapse [symmetric], where k = "''k3''"
        and w = "snd (serveAll engineB (take 3 demoSetup) newEngine)" and q = depositK3])
    (code_simp, rule disjI1, code_simp, code_simp)

text \<open>
  C20: A call leaves no account overdrawn if none was, provided a credited balance does not
  overflow and a transferred amount is positive.
\<close>

fun creditOk :: "tables \<Rightarrow> request \<Rightarrow> bool" where
  "creditOk T (ReqDeposit q) \<longleftrightarrow>
     (\<forall>b. balances T (dpAccountID q) = Some b \<longrightarrow> in_i64 (bAmount b + dpAmount q))"
| "creditOk T (ReqTransfer q) \<longleftrightarrow>
     0 < trAmount q \<and> (\<forall>b. balances T (trAccountIDTo q) = Some b \<longrightarrow> in_i64 (bAmount b + trAmount q))"
| "creditOk T _ \<longleftrightarrow> True"

theorem calls_keep_solvency:
  assumes "postgres B tabs" "serve B q w = (e, w')"
    and "db_ok (tabs w)" "solvent (tabs w)" "creditOk (tabs w) q"
  shows "solvent (tabs w')"
proof -
  have fits: "creditFits (tabs w) op" if "asks_for q op" for op
    using that assms(5) by (cases q) auto
  show ?thesis
    using postgres.serve_refines [OF assms(1,2)] ledger_step_solvent fits assms(3,4) by metis
qed

definition withdrawAll :: request where
  "withdrawAll = ReqWithdraw \<lparr>wdAccountID = 1, wdAmount = 100, wdIdempotencyKey = ''k4''\<rparr>"

lemma demo_value: "demo =
  \<lparr>eCurrencies = [(''USD'', 2)],
   eAccounts = [(2, \<lparr>aID = 2, aName = ''bob'', aCurrencyID = ''USD'', aCreatedAt = 3\<rparr>),
                (1, \<lparr>aID = 1, aName = ''ann'', aCurrencyID = ''USD'', aCreatedAt = 1\<rparr>)],
   eBalances = [(2, \<lparr>bAccountID = 2, bAmount = 0, bUpdatedAt = 3\<rparr>),
                (1, \<lparr>bAccountID = 1, bAmount = 100, bUpdatedAt = 5\<rparr>)],
   eTransactions = [(3, \<lparr>tID = 3, tAccountID = 1, tTxType = 1, tAmount = 100, tTimestamp = 5,
                         tParentID = None\<rparr>)],
   eKeys = [(''k3'', 5), (''k2'', 4), (''k1'', 2)], eClock = 5\<rparr>"
  by code_simp

lemma demo_ok: "db_ok (engineTabs demo)" "solvent (engineTabs demo)"
proof -
  have "db_ok emptyTables" by (rule db_ok_empty)
  then show "db_ok (engineTabs demo)"
    unfolding demo_def
    using engine.serveAll_invariant [where I = db_ok and Q = "\<lambda>_. True", OF serveAll_pair]
      ledger_step_db_ok by (simp add: list_all_def)
  show "solvent (engineTabs demo)"
    by (simp add: demo_value solvent_def)
qed

theorem calls_keep_solvency_witness:
  "solvent (engineTabs (snd (serve engineB withdrawAll demo))) \<and>
   map_of (eBalances (snd (serve engineB withdrawAll demo))) 1 =
     Some \<lparr>bAccountID = 1, bAmount = 0, bUpdatedAt = 6\<rparr>"
proof
  show "solvent (engineTabs (snd (serve engineB withdrawAll demo)))"
    by (rule calls_keep_solvency [OF engine.postgres_axioms prod.collapse [symmetric] demo_ok])
      (simp add: withdrawAll_def)
  show "map_of (eBalances (snd (serve engineB withdrawAll demo))) 1 =
     Some \<lparr>bAccountID = 1, bAmount = 0, bUpdatedAt = 6\<rparr>"
    by code_simp
qed

text \<open>
  C6: A successful transfer of a positive amount between two different accounts, when the credit
  does not overflow, moves exactly that amount: the response and the tables agree on both
  balances, the source is not overdrawn, no third balance changes and the money of every currency
  stays the same.
\<close>

theorem transfer_conserves_money:
  assumes "postgres B tabs" "Transfer B req w = (Inr resp, w')" "db_ok (tabs w)"
    and "trAccountIDFrom req \<noteq> trAccountIDTo req" "0 < trAmount req"
    and "in_i64 (trToBefore resp + trAmount req)"
  shows "trFromAfter resp = trFromBefore resp - trAmount req \<and>
    trToAfter resp = trToBefore resp + trAmount req \<and> 0 \<le> trFromAfter resp \<and>
    map_option bAmount (balances (tabs w) (trAccountIDFrom req)) = Some (trFromBefore resp) \<and>
    map_option bAmount (balances (tabs w) (trAccountIDTo req)) = Some (trToBefore resp) \<and>
    map_option bAmount (balances (tabs w') (trAccountIDFrom req)) = Some (trFromAfter resp) \<and>
    map_option bAmount (balances (tabs w') (trAccountIDTo req)) = Some (trToAfter resp) \<and>
    (\<forall>a. a \<noteq> trAccountIDFrom req \<and> a \<noteq> trAccountIDTo req \<longrightarrow> balances (tabs w') a = balances (tabs w) a) \<and>
    (\<forall>c. moneyIn (tabs w') c = moneyIn (tabs w) c)"
proof -
  let ?a = "trAccountIDFrom req" and ?a' = "trAccountIDTo req" and ?m = "trAmount req"
  from postgres.Transfer_refines [OF assms(1,2)] obtain b b' utc where
    s: "ledger_step (tabs w) (OpTransfer ?a ?a' ?m (trIdempotencyKey req)) (tabs w')"
    and b: "balances (tabs w) ?a = Some b" "balances (tabs w) ?a' = Some b'"
    and r: "resp = \<lparr>trFromBefore = bAmount b, trFromAfter = i64 (bAmount b - ?m),
                   trToBefore = bAmount b', trToAfter = i64 (bAmount b' + ?m), trTxTime = utc\<rparr>"
    by auto
  note x = ledger_transfer_exact [OF s assms(3-5) b]
  have "in_i64 (bAmount b' + ?m)" using assms(6) r by simp
  with x b r show ?thesis by (simp add: i64_id)
qed

definition transferReq :: TransferRequest where
  "transferReq = \<lparr>trAccountIDFrom = 1, trAccountIDTo = 2, trAmount = 30, trIdempotencyKey = ''k4''\<rparr>"

definition transferResp :: TransferResponse where
  "transferResp = \<lparr>trFromBefore = 100, trFromAfter = 70, trToBefore = 0, trToAfter = 30, trTxTime = 6\<rparr>"

lemma transfer_run: "fst (Transfer engineB transferReq demo) = Inr transferResp"
  by code_simp

theorem transfer_conserves_money_witness:
  "(\<forall>c. moneyIn (engineTabs (snd (Transfer engineB transferReq demo))) c = moneyIn (engineTabs demo) c) \<and>
   trFromAfter transferResp + trToAfter transferResp = 100"
proof -
  have "Transfer engineB transferReq demo = (Inr transferResp, snd (Transfer engineB transferReq demo))"
    using transfer_run by (metis prod.collapse)
  from transfer_conserves_money [OF engine.postgres_axioms this demo_ok(1)]
  show ?thesis by (simp add: transferReq_def transferResp_def in_i64_def)
qed

end
