(* ===== verification/Bank_Outcomes.thy ===== *)
theory Bank_Outcomes
  imports Bank_Safety
begin

text \<open>
  What each call answers when the server is up (\<open>postgres_up\<close>): the error for every way a
  request can be refused, in the order the code checks them, and success otherwise. The expected
  error is a function of the tables and the request alone.
\<close>

section \<open>Expected errors\<close>

definition createCurrencyError :: "tables \<Rightarrow> CreateCurrencyRequest \<Rightarrow> error option" where
  "createCurrencyError T q =
     (if \<not> CurrencyIdRegex (ccID q) then Some ErrInvalidCurrencyID
      else if ccDecimals q < 0 then Some ErrInvalidCurrencyDecimals
      else if currencies T (ccID q) \<noteq> None then Some ErrCurrencyAlreadyExists
      else None)"

definition createAccountError :: "tables \<Rightarrow> CreateAccountRequest \<Rightarrow> error option" where
  "createAccountError T q =
     (if caName q = '''' then Some ErrAccountNameInvalid
      else if currencies T (caCurrency q) = None then Some ErrCurrencyNotFound
      else if idempotency_keys T (caIdempotencyKey q) \<noteq> None then Some ErrIdempotencyKeyExists
      else None)"

definition depositError :: "tables \<Rightarrow> DepositRequest \<Rightarrow> error option" where
  "depositError T q =
     (if dpAmount q \<le> 0 then Some ErrInvalidTransactionAmount
      else if idempotency_keys T (dpIdempotencyKey q) \<noteq> None then Some ErrIdempotencyKeyExists
      else if balances T (dpAccountID q) = None then Some ErrAccountNotFound
      else None)"

definition withdrawError :: "tables \<Rightarrow> WithdrawRequest \<Rightarrow> error option" where
  "withdrawError T q =
     (if wdAmount q \<le> 0 then Some ErrInvalidTransactionAmount
      else if idempotency_keys T (wdIdempotencyKey q) \<noteq> None then Some ErrIdempotencyKeyExists
      else case balances T (wdAccountID q) of
        None \<Rightarrow> Some ErrAccountNotFound
      | Some b \<Rightarrow> if i64 (bAmount b - wdAmount q) < 0 then Some ErrInsufficientBalance else None)"

definition transferError :: "tables \<Rightarrow> TransferRequest \<Rightarrow> error option" where
  "transferError T q =
     (if trAmount q = 0 then Some ErrInvalidTransactionAmount
      else case accounts T (trAccountIDFrom q) of
        None \<Rightarrow> Some ErrTransferFromAccountNotFound
      | Some x \<Rightarrow>
          (case accounts T (trAccountIDTo q) of
             None \<Rightarrow> Some ErrTransferToAccountNotFound
           | Some x' \<Rightarrow>
               if aCurrencyID x \<noteq> aCurrencyID x' then Some ErrTransferCurrencyMismatch
               else if idempotency_keys T (trIdempotencyKey q) \<noteq> None then Some ErrIdempotencyKeyExists
               else if bAmount (the (balances T (trAccountIDFrom q))) < trAmount q
                 then Some ErrInsufficientBalance
               else None))"

section \<open>Statements that succeed\<close>

context postgres_up
begin

lemma InsertIdempotencyKey_up:
  assumes "pg_text (kKey k)"
  obtains w' where "InsertIdempotencyKey B k w =
      (Inr (if idempotency_keys (tabs w) (kKey k) = None then 1 else 0), w')"
    "tabs w' = (if idempotency_keys (tabs w) (kKey k) = None
                then putKey (kKey k) (kCreatedAt k) (tabs w) else tabs w)"
proof -
  from up_insert_key [OF assms] obtain n w' where
    e: "Exec B sqlInsertIdempotencyKey [PText (kKey k), PTime (kCreatedAt k)] w = (Inr n, w')" by blast
  with insert_key [OF e] that show thesis by (auto simp: InsertIdempotencyKey_def split: if_splits)
qed

lemma GetBalanceWithLock_up:
  obtains w' where "GetBalanceWithLock B i w =
      (Inr (map_option (\<lambda>b. \<lparr>bAccountID = i, bAmount = bAmount b, bUpdatedAt = bUpdatedAt b\<rparr>)
         (balances (tabs w) i)), w')"
    "tabs w' = tabs w"
proof -
  from up_balance_row [of i w] obtain w' where
    e: "QueryRow B sqlBalanceWithLock [PInt i] w =
      ((case balances (tabs w) i of None \<Rightarrow> Inl ErrNoRows
        | Some b \<Rightarrow> Inr [PInt i, PInt (bAmount b), PTime (bUpdatedAt b)]), w')" by blast
  have "tabs w' = tabs w" using query_row_reads [OF _ e] by simp
  with e that show thesis
    by (cases "balances (tabs w) i") (auto simp: GetBalanceWithLock_def rowToBalance_def)
qed

lemma UpdateBalance_up:
  assumes "in_i64 (bAmount b)"
  obtains w' where "UpdateBalance B b w = (Inr (), w')"
    "tabs w' = (if balances (tabs w) (bAccountID b) = None then tabs w else putBalance b (tabs w))"
proof -
  from up_update_balance [OF assms] obtain n w' where
    "Exec B sqlUpdateBalance [PInt (bAmount b), PTime (bUpdatedAt b), PInt (bAccountID b)] w = (Inr n, w')"
    by blast
  then have e: "UpdateBalance B b w = (Inr (), w')" by (simp add: UpdateBalance_def bindp_def)
  from UpdateBalance_effect [OF e] that [OF e] show thesis by simp
qed

lemma InsertTransaction_up:
  assumes "transactions (tabs w) (tID t) = None" "accounts (tabs w) (tAccountID t) \<noteq> None"
    "\<And>q. tParentID t = Some q \<Longrightarrow> transactions (tabs w) q \<noteq> None" "pg_int4 (tTxType t)" "in_i64 (tAmount t)"
  obtains w' where "InsertTransaction B t w = (Inr (), w')" "tabs w' = putTransaction t (tabs w)"
proof -
  from up_insert_transaction [OF assms] obtain n w' where
    "Exec B sqlInsertTransaction [PInt (tID t), PInt (tAccountID t), PInt (tTxType t), PInt (tAmount t),
       PTime (tTimestamp t), fromOptInt (tParentID t)] w = (Inr n, w')" by blast
  then have e: "InsertTransaction B t w = (Inr (), w')" by (simp add: InsertTransaction_def bindp_def)
  from InsertTransaction_effect [OF e] that [OF e] show thesis by simp
qed

lemma begin_tx_up:
  obtains w1 w' where "tabs w1 = tabs w" "BeginTxFunc B f w = (fst (f w1), w')"
    "tabs w' = (case fst (f w1) of Inl e \<Rightarrow> tabs w | Inr x \<Rightarrow> tabs (snd (f w1)))"
  using up_begin_tx [of w f] by blast

lemma pg_int4_txTypes [simp]:
  "pg_int4 TxTypeDeposit" "pg_int4 TxTypeWithdrawal" "pg_int4 TxTypeTransfer"
  by (simp_all add: pg_int4_def TxTypeDeposit_def TxTypeWithdrawal_def TxTypeTransfer_def)

text \<open>A balance with an existing account accepts the pair of writes of a deposit or withdrawal.\<close>

lemma write_entry_up:
  assumes "in_i64 (bAmount b)" "in_i64 am" "accounts (tabs w) a \<noteq> None" "pg_int4 ty"
  obtains w1 w2 where "UpdateBalance B b w = (Inr (), w1)"
    "InsertTransaction B \<lparr>tID = fst (NextID B w1), tAccountID = a, tTxType = ty, tAmount = am,
       tTimestamp = u, tParentID = None\<rparr> (snd (NextID B w1)) = (Inr (), w2)"
proof -
  obtain w1 where w1: "UpdateBalance B b w = (Inr (), w1)" "accounts (tabs w1) = accounts (tabs w)"
    using UpdateBalance_up [OF assms(1), of w] by (metis put_simps(12))
  let ?t = "\<lparr>tID = fst (NextID B w1), tAccountID = a, tTxType = ty, tAmount = am,
       tTimestamp = u, tParentID = None\<rparr>"
  obtain w2 where "InsertTransaction B ?t (snd (NextID B w1)) = (Inr (), w2)"
    by (rule InsertTransaction_up [of "snd (NextID B w1)" ?t])
      (use assms w1 next_id_fresh next_id_reads in simp_all)
  with w1(1) that show thesis by blast
qed

lemma depositTx_up:
  assumes "pg_text (dpIdempotencyKey q)" "in_i64 (dpAmount q)" "0 < dpAmount q" "db_ok (tabs w)"
  shows "case depositError (tabs w) q of
      None \<Rightarrow> \<exists>x. fst (depositTx B q utc w) = Inr x
    | Some e \<Rightarrow> fst (depositTx B q utc w) = Inl e"
proof -
  let ?k = "\<lparr>kKey = dpIdempotencyKey q, kCreatedAt = utc\<rparr>"
  obtain w1 where k: "InsertIdempotencyKey B ?k w =
      (Inr (if idempotency_keys (tabs w) (dpIdempotencyKey q) = None then 1 else 0), w1)"
    "tabs w1 = (if idempotency_keys (tabs w) (dpIdempotencyKey q) = None
                then putKey (dpIdempotencyKey q) utc (tabs w) else tabs w)"
    by (rule InsertIdempotencyKey_up [of ?k w]) (use assms in auto)
  obtain w2 where g: "GetBalanceWithLock B (dpAccountID q) w1 =
      (Inr (map_option (\<lambda>b. \<lparr>bAccountID = dpAccountID q, bAmount = bAmount b, bUpdatedAt = bUpdatedAt b\<rparr>)
         (balances (tabs w1) (dpAccountID q))), w2)" "tabs w2 = tabs w1"
    by (rule GetBalanceWithLock_up)
  have same: "balances (tabs w1) = balances (tabs w)" "accounts (tabs w2) = accounts (tabs w)"
    using k(2) g(2) by simp_all
  show ?thesis
  proof (cases "balances (tabs w) (dpAccountID q)")
    case None
    then show ?thesis using k g same assms(3)
      by (simp add: depositTx_def depositError_def bindp_def on_err_def)
  next
    case (Some b)
    let ?b = "\<lparr>bAccountID = dpAccountID q, bAmount = i64 (bAmount b + dpAmount q), bUpdatedAt = utc\<rparr>"
    have "accounts (tabs w2) (dpAccountID q) \<noteq> None"
      using Some assms(4) same by (auto simp: db_ok_def)
    then obtain w3 w4 where w: "UpdateBalance B ?b w2 = (Inr (), w3)"
      "InsertTransaction B \<lparr>tID = fst (NextID B w3), tAccountID = dpAccountID q, tTxType = TxTypeDeposit,
         tAmount = dpAmount q, tTimestamp = utc, tParentID = None\<rparr> (snd (NextID B w3)) = (Inr (), w4)"
      by (rule write_entry_up [rotated 2]) (use assms in auto)
    show ?thesis using k g same assms(3) Some w
      by (simp add: depositTx_def depositError_def bindp_def on_err_def)
  qed
qed

lemma withdrawTx_up:
  assumes "pg_text (wdIdempotencyKey q)" "0 < wdAmount q" "db_ok (tabs w)"
  shows "case withdrawError (tabs w) q of
      None \<Rightarrow> \<exists>x. fst (withdrawTx B q utc w) = Inr x
    | Some e \<Rightarrow> fst (withdrawTx B q utc w) = Inl e"
proof -
  let ?k = "\<lparr>kKey = wdIdempotencyKey q, kCreatedAt = utc\<rparr>"
  obtain w1 where k: "InsertIdempotencyKey B ?k w =
      (Inr (if idempotency_keys (tabs w) (wdIdempotencyKey q) = None then 1 else 0), w1)"
    "tabs w1 = (if idempotency_keys (tabs w) (wdIdempotencyKey q) = None
                then putKey (wdIdempotencyKey q) utc (tabs w) else tabs w)"
    by (rule InsertIdempotencyKey_up [of ?k w]) (use assms in auto)
  obtain w2 where g: "GetBalanceWithLock B (wdAccountID q) w1 =
      (Inr (map_option (\<lambda>b. \<lparr>bAccountID = wdAccountID q, bAmount = bAmount b, bUpdatedAt = bUpdatedAt b\<rparr>)
         (balances (tabs w1) (wdAccountID q))), w2)" "tabs w2 = tabs w1"
    by (rule GetBalanceWithLock_up)
  have same: "balances (tabs w1) = balances (tabs w)" "accounts (tabs w2) = accounts (tabs w)"
    using k(2) g(2) by simp_all
  show ?thesis
  proof (cases "balances (tabs w) (wdAccountID q)")
    case None
    then show ?thesis using k g same assms(2)
      by (simp add: withdrawTx_def withdrawError_def bindp_def on_err_def)
  next
    case (Some b)
    let ?b = "\<lparr>bAccountID = wdAccountID q, bAmount = i64 (bAmount b - wdAmount q), bUpdatedAt = utc\<rparr>"
    have "accounts (tabs w2) (wdAccountID q) \<noteq> None"
      using Some assms(3) same by (auto simp: db_ok_def)
    then obtain w3 w4 where w: "UpdateBalance B ?b w2 = (Inr (), w3)"
      "InsertTransaction B \<lparr>tID = fst (NextID B w3), tAccountID = wdAccountID q, tTxType = TxTypeWithdrawal,
         tAmount = i64 (- wdAmount q), tTimestamp = utc, tParentID = None\<rparr> (snd (NextID B w3)) = (Inr (), w4)"
      by (rule write_entry_up [rotated 2]) auto
    show ?thesis using k g same assms(2) Some w
      by (simp add: withdrawTx_def withdrawError_def bindp_def on_err_def Let_def)
  qed
qed

lemma transferWrites_up:
  assumes "in_i64 (trAmount q)" "accounts (tabs w) (trAccountIDFrom q) \<noteq> None"
    "accounts (tabs w) (trAccountIDTo q) \<noteq> None"
  shows "\<exists>x. fst (transferWrites B q utc bf bt w) = Inr x"
proof -
  let ?bf = "bf\<lparr>bAmount := i64 (bAmount bf - trAmount q)\<rparr>"
  let ?bt = "bt\<lparr>bAmount := i64 (bAmount bt + trAmount q)\<rparr>"
  obtain w1 where w1: "UpdateBalance B ?bf w = (Inr (), w1)" "accounts (tabs w1) = accounts (tabs w)"
    by (rule UpdateBalance_up [of ?bf w]) (auto split: if_splits)
  obtain w2 where w2: "UpdateBalance B ?bt w1 = (Inr (), w2)" "accounts (tabs w2) = accounts (tabs w)"
    by (rule UpdateBalance_up [of ?bt w1]) (auto simp: w1 split: if_splits)
  let ?i = "fst (NextID B w2)" and ?w2 = "snd (NextID B w2)"
  let ?t = "\<lparr>tID = ?i, tAccountID = trAccountIDFrom q, tTxType = TxTypeTransfer,
            tAmount = i64 (- trAmount q), tTimestamp = utc, tParentID = None\<rparr>"
  obtain w3 where w3: "InsertTransaction B ?t ?w2 = (Inr (), w3)" "tabs w3 = putTransaction ?t (tabs w2)"
    by (rule InsertTransaction_up [of ?w2 ?t])
      (use assms w2 next_id_fresh next_id_reads in auto)
  let ?w3 = "snd (NextID B w3)"
  let ?t' = "\<lparr>tID = fst (NextID B w3), tAccountID = trAccountIDTo q, tTxType = TxTypeTransfer,
            tAmount = trAmount q, tTimestamp = utc, tParentID = Some ?i\<rparr>"
  obtain w4 where w4: "InsertTransaction B ?t' ?w3 = (Inr (), w4)"
    by (rule InsertTransaction_up [of ?w3 ?t'])
      (use assms w2 w3 next_id_fresh [of w3] next_id_reads in auto)
  show ?thesis using w1 w2 w3 w4 by (simp add: transferWrites_def bindp_def Let_def)
qed

lemma transferTx_up:
  assumes "pg_text (trIdempotencyKey q)" "in_i64 (trAmount q)" "db_ok (tabs w)"
    "accounts (tabs w) (trAccountIDFrom q) \<noteq> None" "accounts (tabs w) (trAccountIDTo q) \<noteq> None"
  shows "if idempotency_keys (tabs w) (trIdempotencyKey q) \<noteq> None
      then fst (transferTx B q utc w) = Inl ErrIdempotencyKeyExists
      else if bAmount (the (balances (tabs w) (trAccountIDFrom q))) < trAmount q
      then fst (transferTx B q utc w) = Inl ErrInsufficientBalance
      else \<exists>x. fst (transferTx B q utc w) = Inr x"
proof -
  let ?k = "\<lparr>kKey = trIdempotencyKey q, kCreatedAt = utc\<rparr>"
  have "dom (balances (tabs w)) = dom (accounts (tabs w))" using assms(3) by (simp add: db_ok_def)
  with assms(4,5) obtain b b' where b: "balances (tabs w) (trAccountIDFrom q) = Some b"
    "balances (tabs w) (trAccountIDTo q) = Some b'" by blast
  obtain w1 where k: "InsertIdempotencyKey B ?k w =
      (Inr (if idempotency_keys (tabs w) (trIdempotencyKey q) = None then 1 else 0), w1)"
    "tabs w1 = (if idempotency_keys (tabs w) (trIdempotencyKey q) = None
                then putKey (trIdempotencyKey q) utc (tabs w) else tabs w)"
    by (rule InsertIdempotencyKey_up [of ?k w]) (use assms in auto)
  obtain w2 where g: "GetBalanceWithLock B (trAccountIDFrom q) w1 =
      (Inr (map_option (\<lambda>b. \<lparr>bAccountID = trAccountIDFrom q, bAmount = bAmount b, bUpdatedAt = bUpdatedAt b\<rparr>)
         (balances (tabs w1) (trAccountIDFrom q))), w2)" "tabs w2 = tabs w1"
    by (rule GetBalanceWithLock_up)
  obtain w3 where g': "GetBalanceWithLock B (trAccountIDTo q) w2 =
      (Inr (map_option (\<lambda>b. \<lparr>bAccountID = trAccountIDTo q, bAmount = bAmount b, bUpdatedAt = bUpdatedAt b\<rparr>)
         (balances (tabs w2) (trAccountIDTo q))), w3)" "tabs w3 = tabs w2"
    by (rule GetBalanceWithLock_up)
  have same: "balances (tabs w1) = balances (tabs w)" "accounts (tabs w3) = accounts (tabs w)"
    using k(2) g(2) g'(2) by simp_all
  have "\<exists>x. fst (transferWrites B q utc bf bt w3) = Inr x" for bf bt
    using transferWrites_up assms(2,4,5) same by auto
  then show ?thesis using k g g' same b
    by (auto simp: transferTx_def bindp_def)
qed

lemma createCurrencyTx_up:
  assumes "pg_text (cID c)" "pg_int4 (cDecimals c)"
  shows "fst (createCurrencyTx B c w) =
    (if currencies (tabs w) (cID c) \<noteq> None then Inl ErrCurrencyAlreadyExists else Inr [])"
  using up_insert_currency [OF assms, of w]
  by (auto simp: createCurrencyTx_def InsertCurrency_def bindp_def on_err_def
      PostgresErrorUniqueViolation_def split: prod.splits sum.splits)

lemma createAccountTx_up:
  assumes "pg_text (caIdempotencyKey q)" "pg_text (aName a)" "accounts (tabs w) (aID a) = None"
    "balances (tabs w) (aID a) = None" "currencies (tabs w) (aCurrencyID a) \<noteq> None"
  shows "fst (createAccountTx B q a w) =
    (if idempotency_keys (tabs w) (caIdempotencyKey q) \<noteq> None then Inl ErrIdempotencyKeyExists else Inr [])"
proof -
  let ?k = "\<lparr>kKey = caIdempotencyKey q, kCreatedAt = fst (TimeNow B w)\<rparr>" and ?w = "snd (TimeNow B w)"
  obtain w1 where k: "InsertIdempotencyKey B ?k ?w =
      (Inr (if idempotency_keys (tabs w) (caIdempotencyKey q) = None then 1 else 0), w1)"
    "tabs w1 = (if idempotency_keys (tabs w) (caIdempotencyKey q) = None
                then putKey (caIdempotencyKey q) (fst (TimeNow B w)) (tabs w) else tabs w)"
    by (rule InsertIdempotencyKey_up [of ?k ?w]) (use assms in \<open>auto simp: time_now_reads\<close>)
  have n: "accounts (tabs w1) (aID a) = None" "currencies (tabs w1) (aCurrencyID a) \<noteq> None"
    using assms k(2) by auto
  from up_insert_account [OF assms(2) n] obtain m w2 where
    "Exec B sqlInsertAccount [PInt (aID a), PText (aName a), PText (aCurrencyID a), PTime (aCreatedAt a)] w1 =
      (Inr m, w2)" by blast
  then have a: "InsertAccount B a w1 = (Inr (), w2)" by (simp add: InsertAccount_def bindp_def)
  then have t2: "tabs w2 = putAccount a (tabs w1)" using InsertAccount_effect by blast
  have "balances (tabs w2) (aID a) = None" "accounts (tabs w2) (aID a) \<noteq> None"
    using t2 k(2) assms(4) by auto
  from up_insert_balance [OF this, of "aCreatedAt a"] obtain m w3 where
    "Exec B sqlInsertZeroBalance [PInt (aID a), PInt 0, PTime (aCreatedAt a)] w2 = (Inr m, w3)" by blast
  then have "InsertZeroBalance B (aID a) (aCreatedAt a) w2 = (Inr (), w3)"
    by (simp add: InsertZeroBalance_def bindp_def)
  with k a show ?thesis by (simp add: createAccountTx_def bindp_def)
qed

section \<open>Outcomes of the calls\<close>

text \<open>A transaction whose closure has a known outcome.\<close>

lemma begin_tx_outcome:
  assumes "\<And>w1. tabs w1 = tabs w \<Longrightarrow>
    (case e of None \<Rightarrow> \<exists>x. fst (f w1) = Inr x | Some err \<Rightarrow> fst (f w1) = Inl err)"
  shows "\<exists>r w'. BeginTxFunc B f w = (r, w') \<and>
    (case e of None \<Rightarrow> \<exists>x. r = Inr x | Some err \<Rightarrow> r = Inl err \<and> tabs w' = tabs w)"
proof -
  obtain w1 w' where w: "tabs w1 = tabs w" "BeginTxFunc B f w = (fst (f w1), w')"
    "tabs w' = (case fst (f w1) of Inl e \<Rightarrow> tabs w | Inr x \<Rightarrow> tabs (snd (f w1)))"
    by (rule begin_tx_up)
  with assms [OF w(1)] show ?thesis by (cases e) auto
qed

lemma CreateCurrency_outcome:
  assumes "pg_text (ccID q)" "pg_int4 (ccDecimals q)"
  shows "\<exists>r w'. CreateCurrency B q w = (r, w') \<and>
    (case createCurrencyError (tabs w) q of None \<Rightarrow> r = Inr () | Some e \<Rightarrow> r = Inl e \<and> tabs w' = tabs w)"
proof (cases "CurrencyIdRegex (ccID q) \<and> 0 \<le> ccDecimals q")
  case True
  let ?f = "createCurrencyTx B \<lparr>cID = ccID q, cDecimals = ccDecimals q\<rparr>"
  have "\<exists>r w'. BeginTxFunc B ?f w = (r, w') \<and>
    (case createCurrencyError (tabs w) q of None \<Rightarrow> \<exists>x. r = Inr x | Some e \<Rightarrow> r = Inl e \<and> tabs w' = tabs w)"
    by (rule begin_tx_outcome) (use assms True in \<open>auto simp: createCurrencyTx_up createCurrencyError_def\<close>)
  with True show ?thesis
    by (auto simp: CreateCurrency_def bindp_def split: option.splits)
qed (auto simp: CreateCurrency_def createCurrencyError_def)

lemma Deposit_outcome:
  assumes "pg_text (dpIdempotencyKey q)" "in_i64 (dpAmount q)" "db_ok (tabs w)"
  shows "\<exists>r w'. Deposit B q w = (r, w') \<and>
    (case depositError (tabs w) q of None \<Rightarrow> \<exists>resp. r = Inr resp | Some e \<Rightarrow> r = Inl e \<and> tabs w' = tabs w)"
proof (cases "dpAmount q \<le> 0")
  case False
  have "\<exists>r w'. BeginTxFunc B (depositTx B q (fst (NowUTC B w))) (snd (NowUTC B w)) = (r, w') \<and>
    (case depositError (tabs w) q of None \<Rightarrow> \<exists>x. r = Inr x
     | Some e \<Rightarrow> r = Inl e \<and> tabs w' = tabs (snd (NowUTC B w)))"
    by (rule begin_tx_outcome) (metis assms False not_le now_utc_reads depositTx_up)
  with False show ?thesis
    by (auto simp: Deposit_def bindp_def now_utc_reads split: option.splits)
qed (simp add: Deposit_def depositError_def)

lemma Withdraw_outcome:
  assumes "pg_text (wdIdempotencyKey q)" "db_ok (tabs w)"
  shows "\<exists>r w'. Withdraw B q w = (r, w') \<and>
    (case withdrawError (tabs w) q of None \<Rightarrow> \<exists>resp. r = Inr resp | Some e \<Rightarrow> r = Inl e \<and> tabs w' = tabs w)"
proof (cases "wdAmount q \<le> 0")
  case False
  have "\<exists>r w'. BeginTxFunc B (withdrawTx B q (fst (NowUTC B w))) (snd (NowUTC B w)) = (r, w') \<and>
    (case withdrawError (tabs w) q of None \<Rightarrow> \<exists>x. r = Inr x
     | Some e \<Rightarrow> r = Inl e \<and> tabs w' = tabs (snd (NowUTC B w)))"
    by (rule begin_tx_outcome) (metis assms False not_le now_utc_reads withdrawTx_up)
  with False show ?thesis
    by (auto simp: Withdraw_def bindp_def now_utc_reads split: option.splits)
qed (simp add: Withdraw_def withdrawError_def)

lemma GetAccountCurrencyID_up:
  obtains w' where "GetAccountCurrencyID B i w =
      (Inr (case accounts (tabs w) i of None \<Rightarrow> '''' | Some a \<Rightarrow> aCurrencyID a), w')" "tabs w' = tabs w"
proof -
  from up_account_currency [of i w] obtain w' where
    e: "QueryRow B sqlAccountCurrencyID [PInt i] w =
      ((case accounts (tabs w) i of None \<Rightarrow> Inl ErrNoRows | Some a \<Rightarrow> Inr [PText (aCurrencyID a)]), w')"
    by blast
  have "tabs w' = tabs w" using query_row_reads [OF _ e] by simp
  with e that show thesis
    by (cases "accounts (tabs w) i") (auto simp: GetAccountCurrencyID_def scanOne_def)
qed

lemma Transfer_outcome:
  assumes "pg_text (trIdempotencyKey q)" "in_i64 (trAmount q)" "db_ok (tabs w)"
  shows "\<exists>r w'. Transfer B q w = (r, w') \<and>
    (case transferError (tabs w) q of None \<Rightarrow> \<exists>resp. r = Inr resp | Some e \<Rightarrow> r = Inl e \<and> tabs w' = tabs w)"
proof -
  obtain w1 where f: "GetAccountCurrencyID B (trAccountIDFrom q) w = (Inr (case accounts (tabs w)
      (trAccountIDFrom q) of None \<Rightarrow> '''' | Some a \<Rightarrow> aCurrencyID a), w1)" "tabs w1 = tabs w"
    by (rule GetAccountCurrencyID_up)
  obtain w2 where t: "GetAccountCurrencyID B (trAccountIDTo q) w1 = (Inr (case accounts (tabs w1)
      (trAccountIDTo q) of None \<Rightarrow> '''' | Some a \<Rightarrow> aCurrencyID a), w2)" "tabs w2 = tabs w1"
    by (rule GetAccountCurrencyID_up)
  have cu: "aCurrencyID a \<noteq> ''''" if "accounts (tabs w) i = Some a" for i a
    using assms(3) that by (fastforce simp: db_ok_def CurrencyIdRegex_def)
  show ?thesis
  proof (cases "\<exists>x x'. trAmount q \<noteq> 0 \<and> accounts (tabs w) (trAccountIDFrom q) = Some x \<and>
      accounts (tabs w) (trAccountIDTo q) = Some x' \<and> aCurrencyID x = aCurrencyID x'")
    case True
    let ?w = "snd (NowUTC B w2)"
    have "\<exists>r w'. BeginTxFunc B (transferTx B q (fst (NowUTC B w2))) ?w = (r, w') \<and>
      (case transferError (tabs w) q of None \<Rightarrow> \<exists>x. r = Inr x | Some e \<Rightarrow> r = Inl e \<and> tabs w' = tabs ?w)"
    proof (rule begin_tx_outcome)
      fix v assume "tabs v = tabs ?w"
      then have v: "tabs v = tabs w" using f(2) t(2) by (simp add: now_utc_reads)
      show "case transferError (tabs w) q of
            None \<Rightarrow> \<exists>x. fst (transferTx B q (fst (NowUTC B w2)) v) = Inr x
          | Some e \<Rightarrow> fst (transferTx B q (fst (NowUTC B w2)) v) = Inl e"
        using transferTx_up [of q v "fst (NowUTC B w2)"] assms True v
        by (auto simp: transferError_def split: if_splits)
    qed
    with True f t show ?thesis
      by (auto simp: Transfer_def bindp_def on_err_def cu now_utc_reads split: option.splits)
  next
    case False
    then show ?thesis using f t
      by (cases "accounts (tabs w) (trAccountIDFrom q)"; cases "accounts (tabs w) (trAccountIDTo q)")
        (auto simp: Transfer_def transferError_def bindp_def on_err_def cu)
  qed
qed

lemma CreateAccount_outcome:
  assumes "pg_text (caIdempotencyKey q)" "pg_text (caName q)" "pg_text (caCurrency q)"
  shows "\<exists>r w'. CreateAccount B q w = (r, w') \<and>
    (case createAccountError (tabs w) q of None \<Rightarrow> \<exists>resp. r = Inr resp | Some e \<Rightarrow> r = Inl e \<and> tabs w' = tabs w)"
proof -
  from up_currency_exists [OF assms(3)] obtain row w1 where
    e: "QueryRow B sqlCurrencyExists [PText (caCurrency q)] w = (Inr row, w1)" by blast
  have t1: "tabs w1 = tabs w" using query_row_reads [OF _ e] by simp
  have c: "CurrencyExists B (caCurrency q) w = (Inr (currencies (tabs w) (caCurrency q) \<noteq> None), w1)"
    using currency_exists [OF e] e by (simp add: CurrencyExists_def bindp_def fromRes_def scanOne_def)
  show ?thesis
  proof (cases "caName q \<noteq> '''' \<and> currencies (tabs w) (caCurrency q) \<noteq> None")
    case True
    let ?i = "fst (NextID B w1)" and ?w2 = "snd (NextID B w1)"
    let ?w = "snd (NowUTC B ?w2)"
    let ?a = "\<lparr>aID = ?i, aName = caName q, aCurrencyID = caCurrency q, aCreatedAt = fst (NowUTC B ?w2)\<rparr>"
    have "\<exists>r w'. BeginTxFunc B (createAccountTx B q ?a) ?w = (r, w') \<and>
      (case createAccountError (tabs w) q of None \<Rightarrow> \<exists>x. r = Inr x | Some e \<Rightarrow> r = Inl e \<and> tabs w' = tabs ?w)"
    proof (rule begin_tx_outcome)
      fix v assume "tabs v = tabs ?w"
      then have v: "tabs v = tabs w1" by (simp add: now_utc_reads next_id_reads)
      show "case createAccountError (tabs w) q of
            None \<Rightarrow> \<exists>x. fst (createAccountTx B q ?a v) = Inr x
          | Some e \<Rightarrow> fst (createAccountTx B q ?a v) = Inl e"
        using createAccountTx_up [of q ?a v] assms True v t1 next_id_fresh [of w1]
        by (simp add: createAccountError_def)
    qed
    with True c show ?thesis
      by (auto simp: CreateAccount_def bindp_def on_err_def now_utc_reads next_id_reads t1 Let_def
          split: option.splits)
  next
    case False
    then show ?thesis using c t1
      by (auto simp: CreateAccount_def createAccountError_def bindp_def on_err_def)
  qed
qed

text \<open>Reads.\<close>

lemma distinct_set_singleton: "distinct xs \<Longrightarrow> set xs = {x} \<Longrightarrow> xs = [x]"
  by (cases xs) (auto simp: subset_singleton_iff)

lemma GetAccountInfo_outcome:
  assumes "db_ok (tabs w)"
  shows "\<exists>r w'. GetAccountInfo B q w = (r, w') \<and> tabs w' = tabs w \<and>
    (case accounts (tabs w) (giID q) of
       None \<Rightarrow> r = Inl ErrAccountNotFound
     | Some a \<Rightarrow> \<exists>b d. balances (tabs w) (giID q) = Some b \<and> currencies (tabs w) (aCurrencyID a) = Some d \<and>
         r = Inr \<lparr>gAccountID = giID q, gAccountName = aName a, gAccountCreatedAt = aCreatedAt a,
                  gCurrencyID = aCurrencyID a, gCurrencyDecimals = d, gBalanceAmount = bAmount b,
                  gBalanceUpdatedAt = bUpdatedAt b\<rparr>)"
proof -
  from up_account_info [of "giID q" w] obtain rows w' where
    e: "Query B sqlAccountInfo [PInt (giID q)] w = (Inr rows, w')" and
    rows: "set rows = {[PInt (giID q), PText (aName a), PTime (aCreatedAt a), PText (aCurrencyID a), PInt d,
                   PInt (bAmount b), PTime (bUpdatedAt b)] |a b d.
                  accounts (tabs w) (giID q) = Some a \<and> balances (tabs w) (giID q) = Some b \<and>
                  currencies (tabs w) (aCurrencyID a) = Some d}" "distinct rows" by blast
  have t: "tabs w' = tabs w" using query_reads [OF _ e] by simp
  show ?thesis
  proof (cases "accounts (tabs w) (giID q)")
    case None
    with rows have "rows = []" by simp
    with None e t show ?thesis
      by (simp add: GetAccountInfo_def GetAccountInfoByID_def bindp_def on_err_def fromRes_def collectOneRow_def)
  next
    case (Some a)
    with assms have "currencies (tabs w) (aCurrencyID a) \<noteq> None" "giID q \<in> dom (balances (tabs w))"
      by (auto simp: db_ok_def)
    then obtain b d where bd: "balances (tabs w) (giID q) = Some b"
      "currencies (tabs w) (aCurrencyID a) = Some d" by auto
    with Some rows have "set rows = {[PInt (giID q), PText (aName a), PTime (aCreatedAt a),
      PText (aCurrencyID a), PInt d, PInt (bAmount b), PTime (bUpdatedAt b)]}" by auto
    from distinct_set_singleton [OF rows(2) this] Some bd e t show ?thesis
      by (simp add: GetAccountInfo_def GetAccountInfoByID_def bindp_def on_err_def fromRes_def
          collectOneRow_def rowToAccountInfo_def)
  qed
qed

lemma collectRows_map:
  assumes "\<And>r. r \<in> set rs \<Longrightarrow> f r = Inr (g r)"
  shows "collectRows f rs = Inr (map g rs)"
  using assms by (induction rs) auto

lemma GetCurrencies_outcome:
  shows "\<exists>resp w'. ServiceGetCurrencies B w = (Inr resp, w') \<and> tabs w' = tabs w \<and>
    set (gcCurrencies resp) = {\<lparr>crID = c, crDecimals = d\<rparr> |c d. currencies (tabs w) c = Some d} \<and>
    distinct (gcCurrencies resp)"
proof -
  from up_currencies [of w] obtain rows w' where
    e: "Query B sqlGetCurrencies [] w = (Inr rows, w')" and
    rows: "set rows = {[PText c, PInt d] |c d. currencies (tabs w) c = Some d}" "distinct rows" by blast
  have t: "tabs w' = tabs w" using query_reads [OF _ e] by simp
  define g where "g r = (case r of [PText c, PInt d] \<Rightarrow> \<lparr>cID = c, cDecimals = d\<rparr>)" for r
  have "collectRows rowToCurrency rows = Inr (map g rows)"
    by (rule collectRows_map) (auto simp: rows rowToCurrency_def g_def)
  then have r: "ServiceGetCurrencies B w =
      (Inr \<lparr>gcCurrencies = map (\<lambda>c. \<lparr>crID = cID c, crDecimals = cDecimals c\<rparr>) (map g rows)\<rparr>, w')"
    using e by (simp add: ServiceGetCurrencies_def GetCurrencies_def bindp_def on_err_def fromRes_def)
  have inj: "inj_on ((\<lambda>c. \<lparr>crID = cID c, crDecimals = cDecimals c\<rparr>) \<circ> g) (set rows)"
    by (auto simp: inj_on_def rows g_def)
  have img: "(\<lambda>c. \<lparr>crID = cID c, crDecimals = cDecimals c\<rparr>) ` g ` set rows =
      {\<lparr>crID = c, crDecimals = d\<rparr> |c d. currencies (tabs w) c = Some d}"
    by (force simp: rows g_def image_def)
  show ?thesis
    by (rule exI, rule exI [of _ w'], rule conjI [OF r])
      (use t inj img rows(2) in \<open>simp add: distinct_map image_comp\<close>)
qed

end

section \<open>Properties\<close>

lemma deposit_cases:
  assumes "postgres_up B tabs" "db_ok (tabs w)" "pg_text (dpIdempotencyKey q)" "in_i64 (dpAmount q)"
  shows "case depositError (tabs w) q of
      Some e \<Rightarrow> \<exists>w'. Deposit B q w = (Inl e, w') \<and> tabs w' = tabs w
    | None \<Rightarrow> \<exists>b u w'. balances (tabs w) (dpAccountID q) = Some b \<and>
        Deposit B q w = (Inr \<lparr>dpBalanceBefore = bAmount b, dpBalanceAfter = i64 (bAmount b + dpAmount q),
                              dpTxTime = u\<rparr>, w') \<and>
        ledger_step (tabs w) (OpDeposit (dpAccountID q) (dpAmount q) (dpIdempotencyKey q)) (tabs w')"
proof -
  obtain r w' where o: "Deposit B q w = (r, w')"
    "case depositError (tabs w) q of None \<Rightarrow> \<exists>resp. r = Inr resp | Some e \<Rightarrow> r = Inl e \<and> tabs w' = tabs w"
    using postgres_up.Deposit_outcome [OF assms(1,3,4,2)] by blast
  from o(2) postgres.Deposit_refines [OF postgres_up.axioms(1) [OF assms(1)] o(1)] o(1)
  show ?thesis by (cases "depositError (tabs w) q") auto
qed

text \<open>
  C21: On a server that is up, a deposit is refused with exactly the first applicable error (a
  non-positive amount, a used idempotency key, an unknown account) and then changes nothing;
  otherwise it succeeds, performs the deposit and reports the balance before and after it.
\<close>

theorem deposit_outcome:
  assumes "postgres_up B tabs" "db_ok (tabs w)" "pg_text (dpIdempotencyKey q)" "in_i64 (dpAmount q)"
  shows "case depositError (tabs w) q of
      Some e \<Rightarrow> \<exists>w'. Deposit B q w = (Inl e, w') \<and> tabs w' = tabs w
    | None \<Rightarrow> \<exists>b u w'. balances (tabs w) (dpAccountID q) = Some b \<and>
        Deposit B q w = (Inr \<lparr>dpBalanceBefore = bAmount b, dpBalanceAfter = i64 (bAmount b + dpAmount q),
                              dpTxTime = u\<rparr>, w') \<and>
        ledger_step (tabs w) (OpDeposit (dpAccountID q) (dpAmount q) (dpIdempotencyKey q)) (tabs w')"
  by (rule deposit_cases [OF assms])

definition depositReq :: DepositRequest where
  "depositReq = \<lparr>dpAccountID = 2, dpAmount = 5, dpIdempotencyKey = ''k4''\<rparr>"

theorem deposit_outcome_witness:
  "\<exists>b u w'. balances (engineTabs demo) 2 = Some b \<and>
     Deposit engineB depositReq demo =
       (Inr \<lparr>dpBalanceBefore = bAmount b, dpBalanceAfter = i64 (bAmount b + 5), dpTxTime = u\<rparr>, w') \<and>
     ledger_step (engineTabs demo) (OpDeposit 2 5 ''k4'') (engineTabs w')"
proof -
  have "depositError (engineTabs demo) depositReq = None"
    by (simp add: depositError_def depositReq_def demo_value)
  with deposit_outcome [OF engine.postgres_up_axioms demo_ok(1), of depositReq] show ?thesis
    by (simp add: depositReq_def in_i64_def pg_text_def)
qed

text \<open>
  C22: On a server that is up, a withdrawal is refused with exactly the first applicable error (a
  non-positive amount, a used key, an unknown account, insufficient funds) and then changes
  nothing; otherwise it succeeds and reports the balance before and after it.
\<close>

theorem withdraw_outcome:
  assumes "postgres_up B tabs" "db_ok (tabs w)" "pg_text (wdIdempotencyKey q)"
  shows "case withdrawError (tabs w) q of
      Some e \<Rightarrow> \<exists>w'. Withdraw B q w = (Inl e, w') \<and> tabs w' = tabs w
    | None \<Rightarrow> \<exists>b u w'. balances (tabs w) (wdAccountID q) = Some b \<and>
        Withdraw B q w = (Inr \<lparr>wdBalanceBefore = bAmount b, wdBalanceAfter = i64 (bAmount b - wdAmount q),
                               wdTxTime = u\<rparr>, w') \<and>
        ledger_step (tabs w) (OpWithdraw (wdAccountID q) (wdAmount q) (wdIdempotencyKey q)) (tabs w')"
proof -
  obtain r w' where o: "Withdraw B q w = (r, w')"
    "case withdrawError (tabs w) q of None \<Rightarrow> \<exists>resp. r = Inr resp | Some e \<Rightarrow> r = Inl e \<and> tabs w' = tabs w"
    using postgres_up.Withdraw_outcome [OF assms(1,3,2)] by blast
  from o(2) postgres.Withdraw_refines [OF postgres_up.axioms(1) [OF assms(1)] o(1)] o(1)
  show ?thesis by (cases "withdrawError (tabs w) q") auto
qed

definition withdrawReq :: WithdrawRequest where
  "withdrawReq = \<lparr>wdAccountID = 1, wdAmount = 101, wdIdempotencyKey = ''k4''\<rparr>"

theorem withdraw_outcome_witness:
  "\<exists>w'. Withdraw engineB withdrawReq demo = (Inl ErrInsufficientBalance, w') \<and>
     engineTabs w' = engineTabs demo"
proof -
  have "withdrawError (engineTabs demo) withdrawReq = Some ErrInsufficientBalance"
    by (simp add: withdrawError_def withdrawReq_def demo_value i64_def)
  with withdraw_outcome [OF engine.postgres_up_axioms demo_ok(1), of withdrawReq] show ?thesis
    by (simp add: withdrawReq_def pg_text_def)
qed

text \<open>
  C9: On a server that is up, a transfer is refused with exactly the first applicable error (a zero
  amount, a missing source or target account, different currencies, a used key, insufficient
  funds) and then changes nothing; otherwise it succeeds and reports all four balances.
\<close>

theorem transfer_outcome:
  assumes "postgres_up B tabs" "db_ok (tabs w)" "pg_text (trIdempotencyKey q)" "in_i64 (trAmount q)"
  shows "case transferError (tabs w) q of
      Some e \<Rightarrow> \<exists>w'. Transfer B q w = (Inl e, w') \<and> tabs w' = tabs w
    | None \<Rightarrow> \<exists>b b' u w'. balances (tabs w) (trAccountIDFrom q) = Some b \<and>
        balances (tabs w) (trAccountIDTo q) = Some b' \<and>
        Transfer B q w = (Inr \<lparr>trFromBefore = bAmount b, trFromAfter = i64 (bAmount b - trAmount q),
                               trToBefore = bAmount b', trToAfter = i64 (bAmount b' + trAmount q),
                               trTxTime = u\<rparr>, w') \<and>
        ledger_step (tabs w) (OpTransfer (trAccountIDFrom q) (trAccountIDTo q) (trAmount q)
          (trIdempotencyKey q)) (tabs w')"
proof -
  obtain r w' where o: "Transfer B q w = (r, w')"
    "case transferError (tabs w) q of None \<Rightarrow> \<exists>resp. r = Inr resp | Some e \<Rightarrow> r = Inl e \<and> tabs w' = tabs w"
    using postgres_up.Transfer_outcome [OF assms(1,3,4,2)] by blast
  from o(2) postgres.Transfer_refines [OF postgres_up.axioms(1) [OF assms(1)] o(1)] o(1)
  show ?thesis by (cases "transferError (tabs w) q") auto
qed

theorem transfer_outcome_witness:
  "\<exists>b b' u w'. balances (engineTabs demo) 1 = Some b \<and> balances (engineTabs demo) 2 = Some b' \<and>
     Transfer engineB transferReq demo =
       (Inr \<lparr>trFromBefore = bAmount b, trFromAfter = i64 (bAmount b - 30), trToBefore = bAmount b',
             trToAfter = i64 (bAmount b' + 30), trTxTime = u\<rparr>, w') \<and>
     ledger_step (engineTabs demo) (OpTransfer 1 2 30 ''k4'') (engineTabs w')"
proof -
  have "transferError (engineTabs demo) transferReq = None"
    by (simp add: transferError_def transferReq_def demo_value)
  with transfer_outcome [OF engine.postgres_up_axioms demo_ok(1), of transferReq] show ?thesis
    by (simp add: transferReq_def in_i64_def pg_text_def)
qed


text \<open>
  C35: An account that was created can be read back: on a server that is up, right after
  \<open>CreateAccount\<close> answers an identifier, \<open>GetAccountInfo\<close> of it answers the requested name and
  currency with a zero balance.
\<close>

theorem created_account_reads_back:
  assumes "postgres_up B tabs" "db_ok (tabs w)" "CreateAccount B q w = (Inr resp, w1)"
  shows "\<exists>info w2. GetAccountInfo B \<lparr>giID = caID resp\<rparr> w1 = (Inr info, w2) \<and>
    gAccountID info = caID resp \<and> gAccountName info = caName q \<and> gCurrencyID info = caCurrency q \<and>
    gBalanceAmount info = 0 \<and> accounts (tabs w) (caID resp) = None"
proof -
  from postgres.CreateAccount_refines [OF postgres_up.axioms(1) [OF assms(1)] assms(3)]
  have s: "ledger_step (tabs w) (OpenAccount (caID resp) (caName q) (caCurrency q) (caIdempotencyKey q)) (tabs w1)"
    by auto
  then obtain b a where "accounts (tabs w1) (caID resp) = Some a" "aName a = caName q"
    "aCurrencyID a = caCurrency q" "balances (tabs w1) (caID resp) = Some b" "bAmount b = 0"
    "accounts (tabs w) (caID resp) = None"
    by cases auto
  with postgres_up.GetAccountInfo_outcome [OF assms(1) ledger_step_db_ok [OF s assms(2)],
      of "\<lparr>giID = caID resp\<rparr>"]
  show ?thesis by auto
qed

definition createReq :: CreateAccountRequest where
  "createReq = \<lparr>caName = ''cy'', caCurrency = ''USD'', caIdempotencyKey = ''k4''\<rparr>"

lemma create_run: "fst (CreateAccount engineB createReq demo) = Inr \<lparr>caID = 4\<rparr>"
  by code_simp

theorem created_account_reads_back_witness:
  "\<exists>info w2. GetAccountInfo engineB \<lparr>giID = 4\<rparr> (snd (CreateAccount engineB createReq demo)) = (Inr info, w2) \<and>
     gAccountName info = ''cy'' \<and> gBalanceAmount info = 0"
proof -
  have "CreateAccount engineB createReq demo =
      (Inr \<lparr>caID = 4\<rparr>, snd (CreateAccount engineB createReq demo))"
    using create_run by (metis prod.collapse)
  from created_account_reads_back [OF engine.postgres_up_axioms demo_ok(1) this] show ?thesis
    by (auto simp: createReq_def)
qed

text \<open>
  A transfer from an account to itself creates money: it succeeds on a server that is up and
  leaves the account credited with the amount, while the two entries of its history cancel out.
\<close>

theorem self_transfer_creates_money:
  "\<exists>w'. Transfer engineB \<lparr>trAccountIDFrom = 1, trAccountIDTo = 1, trAmount = 30, trIdempotencyKey = ''k4''\<rparr> demo =
     (Inr \<lparr>trFromBefore = 100, trFromAfter = 70, trToBefore = 100, trToAfter = 130, trTxTime = 6\<rparr>, w') \<and>
     map_option bAmount (map_of (eBalances w') 1) = Some 130 \<and>
     sum_list (map (tAmount \<circ> snd) (eTransactions w')) = 100"
  by (rule exI [of _ "snd (Transfer engineB
        \<lparr>trAccountIDFrom = 1, trAccountIDTo = 1, trAmount = 30, trIdempotencyKey = ''k4''\<rparr> demo)"])
    code_simp

text \<open>
  The only amount \<open>Transfer\<close> refuses is zero: a negative amount passes the check of the funds
  and takes money from the target account, which may be left overdrawn.
\<close>

theorem negative_transfer_overdraws_target:
  "\<exists>w'. Transfer engineB \<lparr>trAccountIDFrom = 1, trAccountIDTo = 2, trAmount = -30, trIdempotencyKey = ''k4''\<rparr> demo =
     (Inr \<lparr>trFromBefore = 100, trFromAfter = 130, trToBefore = 0, trToAfter = -30, trTxTime = 6\<rparr>, w') \<and>
     map_option bAmount (map_of (eBalances w') 2) = Some (-30)"
  by (rule exI [of _ "snd (Transfer engineB
        \<lparr>trAccountIDFrom = 1, trAccountIDTo = 2, trAmount = -30, trIdempotencyKey = ''k4''\<rparr> demo)"])
    code_simp

text \<open>
  C40: A deposit is added without an overflow check. On a server that is up, any valid deposit whose sum
  with the balance does not fit 64 bits is accepted, and both the balance reported and the one
  stored are the sum less \<open>2 ^ 64\<close>, which is negative.
\<close>

theorem deposit_overflow_wraps:
  assumes "postgres_up B tabs" "db_ok (tabs w)" "pg_text (dpIdempotencyKey q)" "in_i64 (dpAmount q)"
    and "depositError (tabs w) q = None" "balances (tabs w) (dpAccountID q) = Some b"
    and "2 ^ 63 \<le> bAmount b + dpAmount q"
  shows "\<exists>u w' b'. Deposit B q w = (Inr \<lparr>dpBalanceBefore = bAmount b,
        dpBalanceAfter = bAmount b + dpAmount q - 2 ^ 64, dpTxTime = u\<rparr>, w') \<and>
    balances (tabs w') (dpAccountID q) = Some b' \<and> bAmount b' = bAmount b + dpAmount q - 2 ^ 64 \<and> bAmount b' < 0"
proof -
  have "in_i64 (bAmount b)" using assms(2,6) by (simp add: db_ok_def)
  then have sum: "bAmount b + dpAmount q \<le> 2 * (2 ^ 63 - 1)"
    using assms(4) by (simp add: in_i64_def)
  have wrap: "i64 (bAmount b + dpAmount q) = bAmount b + dpAmount q - 2 ^ 64"
    using i64_id [of "bAmount b + dpAmount q - 2 ^ 64"] i64_cong_mod [of "bAmount b + dpAmount q" "bAmount b + dpAmount q - 2 ^ 64"]
      assms(7) sum by (simp add: in_i64_def)
  obtain u w' where d: "Deposit B q w = (Inr \<lparr>dpBalanceBefore = bAmount b,
        dpBalanceAfter = i64 (bAmount b + dpAmount q), dpTxTime = u\<rparr>, w')"
    and l: "ledger_step (tabs w) (OpDeposit (dpAccountID q) (dpAmount q) (dpIdempotencyKey q)) (tabs w')"
    using deposit_cases [OF assms(1-4)] assms(5,6) by auto
  from l assms(6) obtain b' where "balances (tabs w') (dpAccountID q) = Some b'"
    "bAmount b' = i64 (bAmount b + dpAmount q)"
    by (auto simp: ledger_step.simps)
  with d sum show ?thesis unfolding wrap by auto
qed

theorem deposit_overflow_wraps_witness:
  "\<exists>u w' b'. Deposit engineB \<lparr>dpAccountID = 1, dpAmount = max_i64, dpIdempotencyKey = ''k4''\<rparr> demo =
      (Inr \<lparr>dpBalanceBefore = 100, dpBalanceAfter = 100 + max_i64 - 2 ^ 64, dpTxTime = u\<rparr>, w') \<and>
    balances (engineTabs w') 1 = Some b' \<and> bAmount b' = 100 + max_i64 - 2 ^ 64"
proof -
  let ?q = "\<lparr>dpAccountID = 1, dpAmount = max_i64, dpIdempotencyKey = ''k4''\<rparr>"
  obtain b where b: "balances (engineTabs demo) 1 = Some b" "bAmount b = 100" by (simp add: demo_value)
  have "depositError (engineTabs demo) ?q = None"
    using b(1) by (simp add: depositError_def demo_value)
  from deposit_overflow_wraps [OF engine.postgres_up_axioms demo_ok(1) _ _ this, of b] b show ?thesis
    by (auto simp: in_i64_def pg_text_def)
qed

end
