(* ===== verification/Bank_Api.thy ===== *)
theory Bank_Api
  imports Bank_Outcomes Strconv
begin

text \<open>
  The HTTP interface of the bank, \<open>src/internal/bank/api.go\<close>: one definition per handler, from the
  decoded request body to the status and the body written. A body is \<open>None\<close> when the JSON
  decoder of the standard library rejects it; the bytes of the JSON encoding and the chi router
  are not modelled.
\<close>

section \<open>Responses\<close>

definition ErrorCodeUnknown :: int where "ErrorCodeUnknown = 9000"
definition ErrorCodeInvalidParams :: int where "ErrorCodeInvalidParams = 1001"
definition ErrorCodeInvalidOperation :: int where "ErrorCodeInvalidOperation = 1002"
definition ErrorCodeDuplicateIdempotencyKey :: int where "ErrorCodeDuplicateIdempotencyKey = 1003"

lemmas error_code_defs = ErrorCodeUnknown_def ErrorCodeInvalidParams_def
  ErrorCodeInvalidOperation_def ErrorCodeDuplicateIdempotencyKey_def

record APIErrorResponse =
  apiCode :: int
  apiMessage :: string

datatype body =
    NoBody
  | ErrorBody APIErrorResponse
  | CurrenciesBody GetCurrenciesResponse
  | AccountBody CreateAccountResponse
  | InfoBody GetAccountInfoResponse
  | DepositBody DepositResponse
  | WithdrawBody WithdrawResponse
  | TransferBody TransferResponse

record httpResponse =
  hStatus :: int
  hContentType :: "string option"
  hBody :: body

definition writeJSON :: "int \<Rightarrow> body \<Rightarrow> httpResponse" where
  "writeJSON status b = \<lparr>hStatus = status, hContentType = Some ''application/json'', hBody = b\<rparr>"

definition writeErrorResponse :: "int \<Rightarrow> string \<Rightarrow> httpResponse" where
  "writeErrorResponse code message =
     writeJSON (if code = ErrorCodeUnknown then 500 else 400)
       (ErrorBody \<lparr>apiCode = code, apiMessage = message\<rparr>)"

definition writeUnknownError :: httpResponse where
  "writeUnknownError = writeErrorResponse ErrorCodeUnknown ''unknown error''"

definition writeBadRequestInvalidJSON :: httpResponse where
  "writeBadRequestInvalidJSON = writeErrorResponse ErrorCodeInvalidParams ''invalid JSON''"

section \<open>Handlers\<close>

definition api_getCurrencies :: "'w backend \<Rightarrow> 'w \<Rightarrow> httpResponse \<times> 'w" where
  "api_getCurrencies B w =
     (case ServiceGetCurrencies B w of
        (Inl err, w1) \<Rightarrow> (writeUnknownError, w1)
      | (Inr response, w1) \<Rightarrow> (writeJSON 200 (CurrenciesBody response), w1))"

definition api_createCurrency :: "'w backend \<Rightarrow> CreateCurrencyRequest option \<Rightarrow> 'w \<Rightarrow> httpResponse \<times> 'w" where
  "api_createCurrency B reqBody w =
     (case reqBody of
        None \<Rightarrow> (writeBadRequestInvalidJSON, w)
      | Some request \<Rightarrow>
          (case CreateCurrency B request w of
             (Inl err, w1) \<Rightarrow>
               (if errors_Is err ErrInvalidCurrencyID \<or> errors_Is err ErrInvalidCurrencyDecimals
                  then writeErrorResponse ErrorCodeInvalidParams (errorText err)
                else if errors_Is err ErrCurrencyAlreadyExists
                  then writeErrorResponse ErrorCodeInvalidOperation (errorText err)
                else writeUnknownError, w1)
           | (Inr _, w1) \<Rightarrow> (\<lparr>hStatus = 200, hContentType = None, hBody = NoBody\<rparr>, w1)))"

definition api_createAccount :: "'w backend \<Rightarrow> CreateAccountRequest option \<Rightarrow> 'w \<Rightarrow> httpResponse \<times> 'w" where
  "api_createAccount B reqBody w =
     (case reqBody of
        None \<Rightarrow> (writeBadRequestInvalidJSON, w)
      | Some request \<Rightarrow>
          (case CreateAccount B request w of
             (Inl err, w1) \<Rightarrow>
               (if errors_Is err ErrAccountNameInvalid
                  then writeErrorResponse ErrorCodeInvalidParams (errorText err)
                else if errors_Is err ErrCurrencyNotFound
                  then writeErrorResponse ErrorCodeInvalidOperation (errorText err)
                else if errors_Is err ErrIdempotencyKeyExists
                  then writeErrorResponse ErrorCodeDuplicateIdempotencyKey (errorText err)
                else writeUnknownError, w1)
           | (Inr response, w1) \<Rightarrow> (writeJSON 200 (AccountBody response), w1)))"

definition api_getAccountInfo :: "'w backend \<Rightarrow> string \<Rightarrow> 'w \<Rightarrow> httpResponse \<times> 'w" where
  "api_getAccountInfo B accountIDStr w =
     (case parseInt accountIDStr of
        None \<Rightarrow> (writeErrorResponse ErrorCodeInvalidParams ''invalid account ID'', w)
      | Some accountID \<Rightarrow>
          (case GetAccountInfo B \<lparr>giID = accountID\<rparr> w of
             (Inl err, w1) \<Rightarrow>
               (if errors_Is err ErrAccountNotFound
                  then writeErrorResponse ErrorCodeInvalidOperation (errorText err)
                else writeUnknownError, w1)
           | (Inr response, w1) \<Rightarrow> (writeJSON 200 (InfoBody response), w1)))"

definition api_deposit :: "'w backend \<Rightarrow> DepositRequest option \<Rightarrow> 'w \<Rightarrow> httpResponse \<times> 'w" where
  "api_deposit B reqBody w =
     (case reqBody of
        None \<Rightarrow> (writeBadRequestInvalidJSON, w)
      | Some request \<Rightarrow>
          (case Deposit B request w of
             (Inl err, w1) \<Rightarrow>
               (if errors_Is err ErrInvalidTransactionAmount
                  then writeErrorResponse ErrorCodeInvalidParams (errorText err)
                else if errors_Is err ErrIdempotencyKeyExists
                  then writeErrorResponse ErrorCodeDuplicateIdempotencyKey (errorText err)
                else if errors_Is err ErrCurrencyNotFound \<or> errors_Is err ErrAccountNotFound
                  then writeErrorResponse ErrorCodeInvalidOperation (errorText err)
                else writeUnknownError, w1)
           | (Inr response, w1) \<Rightarrow> (writeJSON 200 (DepositBody response), w1)))"

definition api_withdraw :: "'w backend \<Rightarrow> WithdrawRequest option \<Rightarrow> 'w \<Rightarrow> httpResponse \<times> 'w" where
  "api_withdraw B reqBody w =
     (case reqBody of
        None \<Rightarrow> (writeBadRequestInvalidJSON, w)
      | Some request \<Rightarrow>
          (case Withdraw B request w of
             (Inl err, w1) \<Rightarrow>
               (if errors_Is err ErrInvalidTransactionAmount
                  then writeErrorResponse ErrorCodeInvalidParams (errorText err)
                else if errors_Is err ErrIdempotencyKeyExists
                  then writeErrorResponse ErrorCodeDuplicateIdempotencyKey (errorText err)
                else if errors_Is err ErrCurrencyNotFound \<or> errors_Is err ErrAccountNotFound \<or>
                    errors_Is err ErrInsufficientBalance
                  then writeErrorResponse ErrorCodeInvalidOperation (errorText err)
                else writeUnknownError, w1)
           | (Inr response, w1) \<Rightarrow> (writeJSON 200 (WithdrawBody response), w1)))"

definition api_transfer :: "'w backend \<Rightarrow> TransferRequest option \<Rightarrow> 'w \<Rightarrow> httpResponse \<times> 'w" where
  "api_transfer B reqBody w =
     (case reqBody of
        None \<Rightarrow> (writeBadRequestInvalidJSON, w)
      | Some request \<Rightarrow>
          (case Transfer B request w of
             (Inl err, w1) \<Rightarrow>
               (if errors_Is err ErrInvalidTransactionAmount
                  then writeErrorResponse ErrorCodeInvalidParams (errorText err)
                else if errors_Is err ErrIdempotencyKeyExists
                  then writeErrorResponse ErrorCodeDuplicateIdempotencyKey (errorText err)
                else if errors_Is err ErrTransferFromAccountNotFound \<or>
                    errors_Is err ErrTransferToAccountNotFound \<or>
                    errors_Is err ErrTransferCurrencyMismatch \<or> errors_Is err ErrInsufficientBalance
                  then writeErrorResponse ErrorCodeInvalidOperation (errorText err)
                else writeUnknownError, w1)
           | (Inr response, w1) \<Rightarrow> (writeJSON 200 (TransferBody response), w1)))"

section \<open>Routes\<close>

text \<open>The endpoint a request is routed to, with its body or path parameter.\<close>

datatype endpoint =
    GetCurrenciesEp
  | CreateCurrencyEp "CreateCurrencyRequest option"
  | CreateAccountEp "CreateAccountRequest option"
  | GetAccountInfoEp string
  | DepositEp "DepositRequest option"
  | WithdrawEp "WithdrawRequest option"
  | TransferEp "TransferRequest option"

fun handleEndpoint :: "'w backend \<Rightarrow> endpoint \<Rightarrow> 'w \<Rightarrow> httpResponse \<times> 'w" where
  "handleEndpoint B GetCurrenciesEp w = api_getCurrencies B w"
| "handleEndpoint B (CreateCurrencyEp b) w = api_createCurrency B b w"
| "handleEndpoint B (CreateAccountEp b) w = api_createAccount B b w"
| "handleEndpoint B (GetAccountInfoEp s) w = api_getAccountInfo B s w"
| "handleEndpoint B (DepositEp b) w = api_deposit B b w"
| "handleEndpoint B (WithdrawEp b) w = api_withdraw B b w"
| "handleEndpoint B (TransferEp b) w = api_transfer B b w"

text \<open>The arguments the handlers pass on fit the columns they are stored in.\<close>

fun fits :: "endpoint \<Rightarrow> bool" where
  "fits (CreateCurrencyEp (Some q)) \<longleftrightarrow> pg_text (ccID q) \<and> pg_int4 (ccDecimals q)"
| "fits (CreateAccountEp (Some q)) \<longleftrightarrow>
     pg_text (caName q) \<and> pg_text (caCurrency q) \<and> pg_text (caIdempotencyKey q)"
| "fits (DepositEp (Some q)) \<longleftrightarrow> pg_text (dpIdempotencyKey q) \<and> in_i64 (dpAmount q)"
| "fits (WithdrawEp (Some q)) \<longleftrightarrow> pg_text (wdIdempotencyKey q)"
| "fits (TransferEp (Some q)) \<longleftrightarrow> pg_text (trIdempotencyKey q) \<and> in_i64 (trAmount q)"
| "fits _ \<longleftrightarrow> True"

section \<open>What a client sees\<close>

lemmas api_defs = api_getCurrencies_def api_createCurrency_def api_createAccount_def
  api_getAccountInfo_def api_deposit_def api_withdraw_def api_transfer_def

lemmas write_defs = writeJSON_def writeErrorResponse_def writeUnknownError_def
  writeBadRequestInvalidJSON_def error_code_defs

lemmas expected_errors = createCurrencyError_def createAccountError_def depositError_def
  withdrawError_def transferError_def

text \<open>The endpoint as a call of the service.\<close>

fun callOf :: "endpoint \<Rightarrow> request option" where
  "callOf GetCurrenciesEp = Some ReqGetCurrencies"
| "callOf (CreateCurrencyEp b) = map_option ReqCreateCurrency b"
| "callOf (CreateAccountEp b) = map_option ReqCreateAccount b"
| "callOf (GetAccountInfoEp s) = map_option (\<lambda>i. ReqGetAccountInfo \<lparr>giID = i\<rparr>) (parseInt s)"
| "callOf (DepositEp b) = map_option ReqDeposit b"
| "callOf (WithdrawEp b) = map_option ReqWithdraw b"
| "callOf (TransferEp b) = map_option ReqTransfer b"

lemma handleEndpoint_serve:
  assumes "handleEndpoint B ep w = (resp, w')"
  shows "case callOf ep of
      None \<Rightarrow> w' = w \<and> hStatus resp = 400
    | Some q \<Rightarrow> \<exists>e. serve B q w = (e, w') \<and> (e = None \<longleftrightarrow> hStatus resp = 200)"
proof (cases ep)
  case (CreateCurrencyEp b)
  with assms show ?thesis
    by (cases b) (auto simp: api_defs write_defs errOf_def split: prod.splits sum.splits if_splits)
next
  case (CreateAccountEp b)
  with assms show ?thesis
    by (cases b) (auto simp: api_defs write_defs errOf_def split: prod.splits sum.splits if_splits)
next
  case (GetAccountInfoEp s)
  with assms show ?thesis
    by (cases "parseInt s") (auto simp: api_defs write_defs errOf_def split: prod.splits sum.splits if_splits)
next
  case (DepositEp b)
  with assms show ?thesis
    by (cases b) (auto simp: api_defs write_defs errOf_def split: prod.splits sum.splits if_splits)
next
  case (WithdrawEp b)
  with assms show ?thesis
    by (cases b) (auto simp: api_defs write_defs errOf_def split: prod.splits sum.splits if_splits)
next
  case (TransferEp b)
  with assms show ?thesis
    by (cases b) (auto simp: api_defs write_defs errOf_def split: prod.splits sum.splits if_splits)
qed (use assms in \<open>auto simp: api_defs write_defs errOf_def split: prod.splits sum.splits if_splits\<close>)


lemma api_error_simps [simp]:
  "hStatus (writeJSON s b) = s"
  "hStatus (writeErrorResponse c m) = (if c = ErrorCodeUnknown then 500 else 400)"
  by (simp_all add: writeErrorResponse_def writeJSON_def)

text \<open>The answer to a refused request, per endpoint.\<close>

context postgres_up
begin

lemma api_createCurrency_up:
  assumes "fits (CreateCurrencyEp (Some q))" "api_createCurrency B (Some q) w = (resp, w')"
  shows "hStatus resp = 200 \<or> hStatus resp = 400 \<and> tabs w' = tabs w"
  using CreateCurrency_outcome [of q w] assms
  by (auto simp: api_createCurrency_def createCurrencyError_def error_code_defs split: if_splits)

lemma api_createAccount_up:
  assumes "fits (CreateAccountEp (Some q))" "api_createAccount B (Some q) w = (resp, w')"
  shows "hStatus resp = 200 \<or> hStatus resp = 400 \<and> tabs w' = tabs w"
  using CreateAccount_outcome [of q w] assms
  by (auto simp: api_createAccount_def createAccountError_def error_code_defs split: if_splits)

lemma api_getAccountInfo_up:
  assumes "db_ok (tabs w)" "api_getAccountInfo B s w = (resp, w')"
  shows "(hStatus resp = 200 \<or> hStatus resp = 400) \<and> tabs w' = tabs w"
proof (cases "parseInt s")
  case (Some i)
  then show ?thesis using GetAccountInfo_outcome [of w "\<lparr>giID = i\<rparr>"] assms
    by (auto simp: api_getAccountInfo_def error_code_defs split: option.splits)
qed (use assms in \<open>auto simp: api_getAccountInfo_def error_code_defs\<close>)

lemma api_deposit_up:
  assumes "fits (DepositEp (Some q))" "db_ok (tabs w)" "api_deposit B (Some q) w = (resp, w')"
  shows "hStatus resp = 200 \<or> hStatus resp = 400 \<and> tabs w' = tabs w"
  using Deposit_outcome [of q w] assms
  by (auto simp: api_deposit_def depositError_def error_code_defs split: if_splits)

lemma api_withdraw_up:
  assumes "fits (WithdrawEp (Some q))" "db_ok (tabs w)" "api_withdraw B (Some q) w = (resp, w')"
  shows "hStatus resp = 200 \<or> hStatus resp = 400 \<and> tabs w' = tabs w"
  using Withdraw_outcome [of q w] assms
  by (auto simp: api_withdraw_def withdrawError_def error_code_defs split: if_splits option.splits)

lemma api_transfer_up:
  assumes "fits (TransferEp (Some q))" "db_ok (tabs w)" "api_transfer B (Some q) w = (resp, w')"
  shows "hStatus resp = 200 \<or> hStatus resp = 400 \<and> tabs w' = tabs w"
  using Transfer_outcome [of q w] assms
  by (auto simp: api_transfer_def transferError_def error_code_defs split: if_splits option.splits)

lemma api_getCurrencies_up:
  assumes "api_getCurrencies B w = (resp, w')"
  shows "hStatus resp = 200 \<and> tabs w' = tabs w"
  using GetCurrencies_outcome [of w] assms by (auto simp: api_getCurrencies_def)

lemma api_answers:
  assumes "fits ep" "db_ok (tabs w)" "handleEndpoint B ep w = (resp, w')"
  shows "hStatus resp = 200 \<or> hStatus resp = 400 \<and> tabs w' = tabs w"
proof (cases "callOf ep")
  case None
  then show ?thesis using handleEndpoint_serve [OF assms(3)] by simp
next
  case (Some q)
  then show ?thesis using assms
    by (cases ep) (auto dest: api_createCurrency_up api_createAccount_up api_getAccountInfo_up
        api_deposit_up api_withdraw_up api_transfer_up api_getCurrencies_up)
qed

end

section \<open>Properties\<close>




lemma key_used_errors:
  "ledger_step T (OpDeposit (dpAccountID d) (dpAmount d) (dpIdempotencyKey d)) T' \<Longrightarrow>
    depositError T' d = Some ErrIdempotencyKeyExists"
  "ledger_step T (OpWithdraw (wdAccountID x) (wdAmount x) (wdIdempotencyKey x)) T' \<Longrightarrow>
    withdrawError T' x = Some ErrIdempotencyKeyExists"
  "ledger_step T (OpTransfer (trAccountIDFrom t) (trAccountIDTo t) (trAmount t) (trIdempotencyKey t)) T' \<Longrightarrow>
    transferError T' t = Some ErrIdempotencyKeyExists"
  "ledger_step T (OpenAccount i (caName a) (caCurrency a) (caIdempotencyKey a)) T' \<Longrightarrow>
    createAccountError T' a = Some ErrIdempotencyKeyExists"
  by (cases rule: ledger_step.cases, assumption, auto simp: expected_errors)+

context postgres_up
begin

lemma api_retry:
  assumes "db_ok (tabs w)" "fits ep" "map_option keyOf (callOf ep) = Some (Some k)"
    and "handleEndpoint B ep w = (resp, w1)" "hStatus resp = 200"
    and "handleEndpoint B ep w1 = (resp2, w2)"
  shows "resp2 = writeErrorResponse ErrorCodeDuplicateIdempotencyKey ''idempotency key already exists'' \<and>
    tabs w2 = tabs w1"
proof -
  from assms(3) obtain q where q: "callOf ep = Some q" "keyOf q = Some k" by auto
  then have "\<not> read_only q" by (cases q) auto
  moreover have "serve B q w = (None, w1)"
    using handleEndpoint_serve [OF assms(4)] q(1) assms(5) by auto
  ultimately obtain op where op: "asks_for q op" "ledger_step (tabs w) op (tabs w1)"
    using serve_refines by blast
  have ok: "db_ok (tabs w1)" using ledger_step_db_ok [OF op(2) assms(1)] .
  show ?thesis
  proof (cases ep)
    case (CreateAccountEp b)
    with q obtain a where a: "b = Some a" "q = ReqCreateAccount a" by auto
    with op have "createAccountError (tabs w1) a = Some ErrIdempotencyKeyExists"
      by (auto dest: key_used_errors)
    with CreateAccount_outcome [of a w1] assms(2,6) CreateAccountEp a(1) show ?thesis
      by (auto simp: api_createAccount_def)
  next
    case (DepositEp b)
    with q obtain a where a: "b = Some a" "q = ReqDeposit a" by auto
    with op have "depositError (tabs w1) a = Some ErrIdempotencyKeyExists"
      by (auto dest: key_used_errors)
    with Deposit_outcome [of a w1] assms(2,6) DepositEp a(1) ok show ?thesis
      by (auto simp: api_deposit_def)
  next
    case (WithdrawEp b)
    with q obtain a where a: "b = Some a" "q = ReqWithdraw a" by auto
    with op have "withdrawError (tabs w1) a = Some ErrIdempotencyKeyExists"
      by (auto dest: key_used_errors)
    with Withdraw_outcome [of a w1] assms(2,6) WithdrawEp a(1) ok show ?thesis
      by (auto simp: api_withdraw_def)
  next
    case (TransferEp b)
    with q obtain a where a: "b = Some a" "q = ReqTransfer a" by auto
    with op have "transferError (tabs w1) a = Some ErrIdempotencyKeyExists"
      by (auto dest: key_used_errors)
    with Transfer_outcome [of a w1] assms(2,6) TransferEp a(1) ok show ?thesis
      by (auto simp: api_transfer_def)
  qed (use q in auto)
qed

end

text \<open>
  C34: Retrying is safe and recognisable: on a server that is up, when a request with an
  idempotency key was answered with 200 and the client sends it again, it is answered with 400
  and the code for a duplicate key, and nothing changes.
\<close>

theorem api_retry_is_duplicate:
  assumes "postgres_up B tabs" "db_ok (tabs w)" "fits ep"
    and "map_option keyOf (callOf ep) = Some (Some k)"
    and "handleEndpoint B ep w = (resp, w1)" "hStatus resp = 200"
    and "handleEndpoint B ep w1 = (resp2, w2)"
  shows "resp2 = writeErrorResponse ErrorCodeDuplicateIdempotencyKey ''idempotency key already exists'' \<and>
    tabs w2 = tabs w1"
  using postgres_up.api_retry [OF assms] .

definition depositEp :: endpoint where
  "depositEp = DepositEp (Some depositReq)"

theorem api_retry_is_duplicate_witness:
  "let w1 = snd (handleEndpoint engineB depositEp demo); (resp2, w2) = handleEndpoint engineB depositEp w1
   in resp2 = writeErrorResponse ErrorCodeDuplicateIdempotencyKey ''idempotency key already exists'' \<and>
      engineTabs w2 = engineTabs w1"
proof -
  have ok: "hStatus (fst (handleEndpoint engineB depositEp demo)) = 200" by code_simp
  from api_retry_is_duplicate [OF engine.postgres_up_axioms demo_ok(1) _ _
      prod.collapse [symmetric] ok prod.collapse [symmetric], of "''k4''"]
  show ?thesis
    by (simp add: depositEp_def depositReq_def pg_text_def in_i64_def case_prod_unfold)
qed

text \<open>
  C36: The path parameter of an account is its decimal number: on a server that is up, the
  information of an account that exists is served under the printed form of its identifier, for
  every 64-bit identifier, and a number without an account is answered with 400.
\<close>

theorem api_account_by_printed_id:
  assumes "postgres_up B tabs" "db_ok (tabs w)" "in_i64 i"
  shows "case accounts (tabs w) i of
      None \<Rightarrow> fst (api_getAccountInfo B (itoa i) w) =
        writeErrorResponse ErrorCodeInvalidOperation ''deposit account not found''
    | Some a \<Rightarrow> \<exists>info. fst (api_getAccountInfo B (itoa i) w) = writeJSON 200 (InfoBody info) \<and>
        gAccountID info = i \<and> gAccountName info = aName a \<and> gCurrencyID info = aCurrencyID a \<and>
        map_option bAmount (balances (tabs w) i) = Some (gBalanceAmount info)"
  using postgres_up.GetAccountInfo_outcome [OF assms(1,2), of "\<lparr>giID = i\<rparr>"]
  by (auto simp: api_getAccountInfo_def parseInt_itoa [OF assms(3)] writeJSON_def split: option.splits)

theorem api_account_by_printed_id_witness:
  "\<exists>info. fst (api_getAccountInfo engineB (itoa 1) demo) = writeJSON 200 (InfoBody info) \<and>
     gAccountName info = ''ann'' \<and> gBalanceAmount info = 100"
  using api_account_by_printed_id [OF engine.postgres_up_axioms demo_ok(1), of 1]
  by (auto simp: in_i64_def demo_value)

end
