(* ===== verification/Migrations.thy ===== *)
theory Migrations
  imports Bank_Repo
begin

text \<open>
  The migrations of the bank's database: the statements of
  \<open>src/internal/bank_migrations/migrations.go\<close> and the runner of \<open>runner.go\<close>, which applies
  pending migrations in order, each in a transaction together with its row in the version table.
  The connection is the backend of the repository layer; the locale \<open>migration_db\<close> states what
  the runner relies on, \<open>migration_up\<close> that the server is up.
\<close>

section \<open>Statements\<close>

text \<open>The lines of a raw string literal.\<close>

fun joinLines :: "string list \<Rightarrow> string" where
  "joinLines [] = []"
| "joinLines [l] = l"
| "joinLines (l # ls) = l @ CHR 0x0A # joinLines ls"

definition sqlCreateCurrencies :: string where
  "sqlCreateCurrencies =
     joinLines
       ['''',
        CHR 0x09 # ''CREATE TABLE currencies ('',
        CHR 0x09 # CHR 0x09 # ''id       TEXT PRIMARY KEY,'',
        CHR 0x09 # CHR 0x09 # ''decimals INT NOT NULL'',
        CHR 0x09 # '');'']"

definition sqlDropCurrencies :: string where
  "sqlDropCurrencies = ''DROP TABLE currencies;''"

definition sqlCreateAccounts :: string where
  "sqlCreateAccounts =
     joinLines
       ['''',
        CHR 0x09 # ''CREATE TABLE accounts ('',
        CHR 0x09 # CHR 0x09 # ''id          BIGINT PRIMARY KEY,'',
        CHR 0x09 # CHR 0x09 # ''name        TEXT NOT NULL,'',
        CHR 0x09 # CHR 0x09 # ''currency_id TEXT NOT NULL REFERENCES currencies (id),'',
        CHR 0x09 # CHR 0x09 # ''created_at  TIMESTAMPTZ NOT NULL'',
        CHR 0x09 # '');'']"

definition sqlDropAccounts :: string where
  "sqlDropAccounts = ''DROP TABLE accounts;''"

definition sqlCreateBalances :: string where
  "sqlCreateBalances =
     joinLines
       ['''',
        CHR 0x09 # ''CREATE TABLE balances ('',
        CHR 0x09 # CHR 0x09 # ''account_id BIGINT PRIMARY KEY REFERENCES accounts (id),'',
        CHR 0x09 # CHR 0x09 # ''amount     BIGINT NOT NULL,'',
        CHR 0x09 # CHR 0x09 # ''updated_at TIMESTAMPTZ NOT NULL'',
        CHR 0x09 # '');'']"

definition sqlDropBalances :: string where
  "sqlDropBalances = ''DROP TABLE balances;''"

definition sqlCreateTransactions :: string where
  "sqlCreateTransactions =
     joinLines
       ['''',
        CHR 0x09 # ''CREATE TABLE transactions ('',
        CHR 0x09 # CHR 0x09 # ''id         BIGINT PRIMARY KEY,'',
        CHR 0x09 # CHR 0x09 # ''account_id BIGINT NOT NULL REFERENCES accounts (id),'',
        CHR 0x09 # CHR 0x09 # ''tx_type       INT NOT NULL,'',
        CHR 0x09 # CHR 0x09 # ''amount     BIGINT NOT NULL,'',
        CHR 0x09 # CHR 0x09 # ''timestamp  TIMESTAMPTZ NOT NULL,'',
        CHR 0x09 # CHR 0x09 # ''parent_id  BIGINT REFERENCES transactions (id)'',
        CHR 0x09 # '');'']"

definition sqlDropTransactions :: string where
  "sqlDropTransactions = ''DROP TABLE transactions;''"

definition sqlCreateIdempotencyKeys :: string where
  "sqlCreateIdempotencyKeys =
     joinLines
       ['''',
        CHR 0x09 # ''CREATE TABLE idempotency_keys ('',
        CHR 0x09 # CHR 0x09 # ''key TEXT PRIMARY KEY,'',
        CHR 0x09 # CHR 0x09 # ''created_at      TIMESTAMP WITH TIME ZONE NOT NULL'',
        CHR 0x09 # '');'',
        CHR 0x09 # ''CREATE INDEX idx_idempotency_keys_created_at ON idempotency_keys (created_at);'']"

definition sqlDropIdempotencyKeys :: string where
  "sqlDropIdempotencyKeys = ''DROP TABLE idempotency_keys;''"

definition sqlEnsureVersionTable :: string where
  "sqlEnsureVersionTable =
     ''CREATE TABLE IF NOT EXISTS __db_migrations (version INT PRIMARY KEY, applied_at TIMESTAMP WITH TIME ZONE NOT NULL, description TEXT NOT NULL);''"

definition sqlMaxVersion :: string where
  "sqlMaxVersion =
     ''SELECT version FROM __db_migrations ORDER BY version DESC LIMIT 1;''"

definition sqlInsertMigration :: string where
  "sqlInsertMigration =
     ''INSERT INTO __db_migrations (version, applied_at, description) VALUES ($1, $2, $3);''"

definition sqlDeleteMigration :: string where
  "sqlDeleteMigration =
     ''DELETE FROM __db_migrations WHERE version = $1;''"

section \<open>The migrations\<close>

record 'w Migration =
  mVersion :: int
  mDescription :: string
  mUp :: "('w, error, unit) prog"
  mDown :: "('w, error, unit) prog"

definition createCurrencies :: "'w backend \<Rightarrow> ('w, error, unit) prog" where
  "createCurrencies B = bindp (Exec B sqlCreateCurrencies []) (\<lambda>_. returnp ())"

definition dropCurrencies :: "'w backend \<Rightarrow> ('w, error, unit) prog" where
  "dropCurrencies B = bindp (Exec B sqlDropCurrencies []) (\<lambda>_. returnp ())"

definition createAccounts :: "'w backend \<Rightarrow> ('w, error, unit) prog" where
  "createAccounts B = bindp (Exec B sqlCreateAccounts []) (\<lambda>_. returnp ())"

definition dropAccounts :: "'w backend \<Rightarrow> ('w, error, unit) prog" where
  "dropAccounts B = bindp (Exec B sqlDropAccounts []) (\<lambda>_. returnp ())"

definition createBalances :: "'w backend \<Rightarrow> ('w, error, unit) prog" where
  "createBalances B = bindp (Exec B sqlCreateBalances []) (\<lambda>_. returnp ())"

definition dropBalances :: "'w backend \<Rightarrow> ('w, error, unit) prog" where
  "dropBalances B = bindp (Exec B sqlDropBalances []) (\<lambda>_. returnp ())"

definition createTransactions :: "'w backend \<Rightarrow> ('w, error, unit) prog" where
  "createTransactions B = bindp (Exec B sqlCreateTransactions []) (\<lambda>_. returnp ())"

definition dropTransactions :: "'w backend \<Rightarrow> ('w, error, unit) prog" where
  "dropTransactions B = bindp (Exec B sqlDropTransactions []) (\<lambda>_. returnp ())"

definition createIdempotencyKeys :: "'w backend \<Rightarrow> ('w, error, unit) prog" where
  "createIdempotencyKeys B = bindp (Exec B sqlCreateIdempotencyKeys []) (\<lambda>_. returnp ())"

definition dropIdempotencyKeys :: "'w backend \<Rightarrow> ('w, error, unit) prog" where
  "dropIdempotencyKeys B = bindp (Exec B sqlDropIdempotencyKeys []) (\<lambda>_. returnp ())"

definition Migrations :: "'w backend \<Rightarrow> 'w Migration list" where
  "Migrations B =
     [\<lparr>mVersion = 1, mDescription = ''Create currencies table'', mUp = createCurrencies B, mDown = dropCurrencies B\<rparr>,
      \<lparr>mVersion = 2, mDescription = ''Create accounts table'', mUp = createAccounts B, mDown = dropAccounts B\<rparr>,
      \<lparr>mVersion = 3, mDescription = ''Create balances table'', mUp = createBalances B, mDown = dropBalances B\<rparr>,
      \<lparr>mVersion = 4, mDescription = ''Create transactions table'', mUp = createTransactions B, mDown = dropTransactions B\<rparr>,
      \<lparr>mVersion = 5, mDescription = ''Create idempotency_keys table'', mUp = createIdempotencyKeys B, mDown = dropIdempotencyKeys B\<rparr>]"

section \<open>The runner\<close>

record migrationVersion =
  vVersion :: int
  vAppliedAt :: Time
  vDescription :: string

definition ensureVersionTable :: "'w backend \<Rightarrow> ('w, error, unit) prog" where
  "ensureVersionTable B = bindp (Exec B sqlEnsureVersionTable []) (\<lambda>_. returnp ())"

definition getMaxAppliedVersion :: "'w backend \<Rightarrow> ('w, error, int) prog" where
  "getMaxAppliedVersion B w =
     (case QueryRow B sqlMaxVersion [] w of
        (Inl err, w1) \<Rightarrow> if errors_Is err ErrNoRows then (Inr 0, w1) else (Inl err, w1)
      | (Inr row, w1) \<Rightarrow> (scanOne scanInt row, w1))"

definition insertMigration :: "'w backend \<Rightarrow> migrationVersion \<Rightarrow> ('w, error, unit) prog" where
  "insertMigration B m =
     bindp (Exec B sqlInsertMigration [PInt (vVersion m), PTime (vAppliedAt m), PText (vDescription m)])
       (\<lambda>_. returnp ())"

definition deleteMigration :: "'w backend \<Rightarrow> int \<Rightarrow> ('w, error, unit) prog" where
  "deleteMigration B version = bindp (Exec B sqlDeleteMigration [PInt version]) (\<lambda>_. returnp ())"

definition upTx :: "'w backend \<Rightarrow> 'w Migration \<Rightarrow> ('w, error, int list) prog" where
  "upTx B m =
     bindp (mUp m) (\<lambda>_.
     bindp (callp (TimeNow B)) (\<lambda>now.
     bindp (insertMigration B
       \<lparr>vVersion = mVersion m, vAppliedAt = now, vDescription = mDescription m\<rparr>) (\<lambda>_. returnp [])))"

fun upLoop :: "'w backend \<Rightarrow> int \<Rightarrow> int \<Rightarrow> 'w Migration list \<Rightarrow> ('w, error, unit) prog" where
  "upLoop B targetVersion maxAppliedVersion [] = returnp ()"
| "upLoop B targetVersion maxAppliedVersion (m # ms) =
     (if mVersion m > targetVersion then returnp ()
      else if mVersion m \<le> maxAppliedVersion then upLoop B targetVersion maxAppliedVersion ms
      else bindp (BeginTxFunc B (upTx B m)) (\<lambda>_. upLoop B targetVersion maxAppliedVersion ms))"

text \<open>\<open>connect\<close> is \<open>pgx.Connect\<close> of the data source name; the deferred close has no result.\<close>

definition Up :: "'w backend \<Rightarrow> ('w, error, unit) prog \<Rightarrow> int \<Rightarrow> ('w, error, unit) prog" where
  "Up B connect targetVersion =
     bindp connect (\<lambda>_.
     bindp (ensureVersionTable B) (\<lambda>_.
     bindp (getMaxAppliedVersion B) (\<lambda>maxAppliedVersion.
       upLoop B targetVersion maxAppliedVersion (Migrations B))))"

definition downTx :: "'w backend \<Rightarrow> 'w Migration \<Rightarrow> ('w, error, int list) prog" where
  "downTx B m =
     bindp (mDown m) (\<lambda>_. bindp (deleteMigration B (mVersion m)) (\<lambda>_. returnp []))"

text \<open>The loop runs over the indices downwards, that is over the reversed list.\<close>

fun downLoop :: "'w backend \<Rightarrow> int \<Rightarrow> int \<Rightarrow> 'w Migration list \<Rightarrow> ('w, error, unit) prog" where
  "downLoop B targetVersion maxAppliedVersion [] = returnp ()"
| "downLoop B targetVersion maxAppliedVersion (m # ms) =
     (if mVersion m > maxAppliedVersion then downLoop B targetVersion maxAppliedVersion ms
      else if mVersion m < targetVersion then returnp ()
      else bindp (BeginTxFunc B (downTx B m)) (\<lambda>_. downLoop B targetVersion maxAppliedVersion ms))"

definition Down :: "'w backend \<Rightarrow> ('w, error, unit) prog \<Rightarrow> int \<Rightarrow> ('w, error, unit) prog" where
  "Down B connect targetVersion =
     bindp connect (\<lambda>_.
     bindp (ensureVersionTable B) (\<lambda>_.
     bindp (getMaxAppliedVersion B) (\<lambda>maxAppliedVersion.
       downLoop B targetVersion maxAppliedVersion (rev (Migrations B)))))"


section \<open>What the runner relies on\<close>

text \<open>The tables that exist and the rows of the version table.\<close>

record schema =
  sTables :: "string set"
  sVersions :: "int \<rightharpoonup> string"

text \<open>A table with its statements and the other tables its foreign keys refer to.\<close>

record tableDef =
  tdName :: string
  tdCreate :: string
  tdDrop :: string
  tdRefs :: "string list"

definition bankTables :: "tableDef list" where
  "bankTables =
     [\<lparr>tdName = ''currencies'', tdCreate = sqlCreateCurrencies, tdDrop = sqlDropCurrencies, tdRefs = []\<rparr>,
      \<lparr>tdName = ''accounts'', tdCreate = sqlCreateAccounts, tdDrop = sqlDropAccounts,
       tdRefs = [''currencies'']\<rparr>,
      \<lparr>tdName = ''balances'', tdCreate = sqlCreateBalances, tdDrop = sqlDropBalances,
       tdRefs = [''accounts'']\<rparr>,
      \<lparr>tdName = ''transactions'', tdCreate = sqlCreateTransactions, tdDrop = sqlDropTransactions,
       tdRefs = [''accounts'']\<rparr>,
      \<lparr>tdName = ''idempotency_keys'', tdCreate = sqlCreateIdempotencyKeys, tdDrop = sqlDropIdempotencyKeys,
       tdRefs = []\<rparr>]"

text \<open>No existing table refers to \<open>t\<close>.\<close>

definition unreferenced :: "string set \<Rightarrow> string \<Rightarrow> bool" where
  "unreferenced ts t \<longleftrightarrow> (\<forall>d \<in> set bankTables. tdName d \<in> ts \<longrightarrow> t \<notin> set (tdRefs d))"

locale migration_db =
  fixes B :: "'w backend" and connect :: "('w, error, unit) prog" and sch :: "'w \<Rightarrow> schema"
  assumes connect_keeps: "connect w = (rc, w') \<Longrightarrow> sch w' = sch w"
    and exec_failed: "Exec B sql args w = (Inl e, w') \<Longrightarrow> sch w' = sch w"
    and ensure_keeps: "Exec B sqlEnsureVersionTable [] w = (Inr n, w') \<Longrightarrow> sch w' = sch w"
    and query_keeps: "QueryRow B sqlMaxVersion [] w = (res, w') \<Longrightarrow> sch w' = sch w"
    and time_keeps: "sch (snd (TimeNow B w)) = sch w"
    and max_row: "QueryRow B sqlMaxVersion [] w = (Inr row, w') \<Longrightarrow>
      \<exists>v. row = [PInt v] \<and> sVersions (sch w) v \<noteq> None \<and> (\<forall>u. sVersions (sch w) u \<noteq> None \<longrightarrow> u \<le> v)"
    and max_none: "QueryRow B sqlMaxVersion [] w = (Inl e, w') \<Longrightarrow> errors_Is e ErrNoRows \<Longrightarrow>
      sVersions (sch w) = Map.empty"
    and insert_version: "Exec B sqlInsertMigration [PInt v, PTime t, PText s] w = (Inr n, w') \<Longrightarrow>
      sVersions (sch w) v = None \<and> sch w' = (sch w)\<lparr>sVersions := (sVersions (sch w))(v \<mapsto> s)\<rparr>"
    and delete_version: "Exec B sqlDeleteMigration [PInt v] w = (Inr n, w') \<Longrightarrow>
      sch w' = (sch w)\<lparr>sVersions := (sVersions (sch w))(v := None)\<rparr>"
    and create_table: "d \<in> set bankTables \<Longrightarrow> Exec B (tdCreate d) [] w = (Inr n, w') \<Longrightarrow>
      tdName d \<notin> sTables (sch w) \<and> set (tdRefs d) \<subseteq> sTables (sch w) \<and>
      sch w' = (sch w)\<lparr>sTables := insert (tdName d) (sTables (sch w))\<rparr>"
    and drop_table: "d \<in> set bankTables \<Longrightarrow> Exec B (tdDrop d) [] w = (Inr n, w') \<Longrightarrow>
      tdName d \<in> sTables (sch w) \<and> unreferenced (sTables (sch w)) (tdName d) \<and>
      sch w' = (sch w)\<lparr>sTables := sTables (sch w) - {tdName d}\<rparr>"
    and begin_tx: "BeginTxFunc B f w = (r, w') \<Longrightarrow>
      (\<exists>e. r = Inl e) \<and> sch w' = sch w \<or>
      (\<exists>w1 x w2. sch w1 = sch w \<and> f w1 = (Inr x, w2) \<and> sch w' = sch w2 \<and>
         (r = Inr x \<or> (\<exists>e. r = Inl e)))"

text \<open>
  The server is up: what the constraints allow succeeds. A statement on \<open>__db_migrations\<close> needs
  that table; \<open>vtab\<close> says that it exists, and only \<open>CREATE TABLE IF NOT EXISTS\<close> makes it.
\<close>

locale migration_up = migration_db +
  fixes vtab :: "'a \<Rightarrow> bool"
  assumes up_connect: "\<exists>w'. connect w = (Inr (), w')"
    and up_ensure: "\<exists>n w'. Exec B sqlEnsureVersionTable [] w = (Inr n, w') \<and> vtab w'"
    and no_vtab_max: "\<not> vtab w \<Longrightarrow> \<exists>e w'. QueryRow B sqlMaxVersion [] w = (Inl e, w') \<and> \<not> errors_Is e ErrNoRows"
    and no_vtab_insert: "\<not> vtab w \<Longrightarrow> \<exists>e w'. Exec B sqlInsertMigration [PInt v, PTime t, PText s] w = (Inl e, w')"
    and no_vtab_delete: "\<not> vtab w \<Longrightarrow> \<exists>e w'. Exec B sqlDeleteMigration [PInt v] w = (Inl e, w')"
    and up_max: "vtab w \<Longrightarrow> (\<exists>row w'. QueryRow B sqlMaxVersion [] w = (Inr row, w')) \<or>
      (\<exists>w'. QueryRow B sqlMaxVersion [] w = (Inl ErrNoRows, w'))"
    and up_insert_version: "vtab w \<Longrightarrow> sVersions (sch w) v = None \<Longrightarrow>
      \<exists>n w'. Exec B sqlInsertMigration [PInt v, PTime t, PText s] w = (Inr n, w')"
    and up_delete_version: "vtab w \<Longrightarrow> \<exists>n w'. Exec B sqlDeleteMigration [PInt v] w = (Inr n, w')"
    and vtab_query: "QueryRow B sqlMaxVersion [] w = (res, w') \<Longrightarrow> vtab w' = vtab w"
    and vtab_time: "vtab (snd (TimeNow B w)) = vtab w"
    and vtab_insert: "Exec B sqlInsertMigration [PInt v, PTime t, PText s] w = (Inr n, w') \<Longrightarrow> vtab w' = vtab w"
    and vtab_delete: "Exec B sqlDeleteMigration [PInt v] w = (Inr n, w') \<Longrightarrow> vtab w' = vtab w"
    and vtab_create: "d \<in> set bankTables \<Longrightarrow> Exec B (tdCreate d) [] w = (Inr n, w') \<Longrightarrow> vtab w' = vtab w"
    and vtab_drop: "d \<in> set bankTables \<Longrightarrow> Exec B (tdDrop d) [] w = (Inr n, w') \<Longrightarrow> vtab w' = vtab w"
    and up_create_table: "d \<in> set bankTables \<Longrightarrow> tdName d \<notin> sTables (sch w) \<Longrightarrow>
      set (tdRefs d) \<subseteq> sTables (sch w) \<Longrightarrow> \<exists>n w'. Exec B (tdCreate d) [] w = (Inr n, w')"
    and up_drop_table: "d \<in> set bankTables \<Longrightarrow> tdName d \<in> sTables (sch w) \<Longrightarrow>
      unreferenced (sTables (sch w)) (tdName d) \<Longrightarrow> \<exists>n w'. Exec B (tdDrop d) [] w = (Inr n, w')"
    and up_begin_tx: "\<exists>w1 w'. sch w1 = sch w \<and> vtab w1 = vtab w \<and> BeginTxFunc B f w = (fst (f w1), w') \<and>
      sch w' = (case fst (f w1) of Inl e \<Rightarrow> sch w | Inr x \<Rightarrow> sch (snd (f w1))) \<and>
      vtab w' = (case fst (f w1) of Inl e \<Rightarrow> vtab w | Inr x \<Rightarrow> vtab (snd (f w1)))"

section \<open>The schema at a version\<close>

definition descriptions :: "string list" where
  "descriptions = [''Create currencies table'', ''Create accounts table'', ''Create balances table'',
     ''Create transactions table'', ''Create idempotency_keys table'']"

definition schemaAt :: "nat \<Rightarrow> schema" where
  "schemaAt n = \<lparr>sTables = set (map tdName (take n bankTables)),
     sVersions = map_of (zip (map (\<lambda>i. int i + 1) [0..<n]) (take n descriptions))\<rparr>"

lemma mig_length [simp]: "length (Migrations B) = 5" "length bankTables = 5" "length descriptions = 5"
  by (simp_all add: Migrations_def bankTables_def descriptions_def)

lemma less_5: "j < (5::nat) \<longleftrightarrow> j = 0 \<or> j = 1 \<or> j = 2 \<or> j = 3 \<or> j = 4"
  by auto

text \<open>Each migration creates and drops the table of its place.\<close>

lemma migration_nth:
  assumes "j < 5"
  shows "mVersion (Migrations B ! j) = int j + 1" "mDescription (Migrations B ! j) = descriptions ! j"
    "mUp (Migrations B ! j) = bindp (Exec B (tdCreate (bankTables ! j)) []) (\<lambda>_. returnp ())"
    "mDown (Migrations B ! j) = bindp (Exec B (tdDrop (bankTables ! j)) []) (\<lambda>_. returnp ())"
  using assms unfolding less_5
  by (auto simp: Migrations_def descriptions_def bankTables_def createCurrencies_def createAccounts_def
      createBalances_def createTransactions_def createIdempotencyKeys_def dropCurrencies_def
      dropAccounts_def dropBalances_def dropTransactions_def dropIdempotencyKeys_def)

lemma schemaAt_versions:
  assumes "n \<le> 5"
  shows "sVersions (schemaAt n) v = (if 1 \<le> v \<and> v \<le> int n then Some (descriptions ! nat (v - 1)) else None)"
proof -
  let ?z = "zip (map (\<lambda>i. int i + 1) [0..<n]) (take n descriptions)"
  have d: "distinct (map fst ?z)" using assms by (simp add: distinct_map inj_on_def)
  have z: "(v, s) \<in> set ?z \<longleftrightarrow> 1 \<le> v \<and> v \<le> int n \<and> s = descriptions ! nat (v - 1)" for s
    using assms by (auto simp: set_zip intro!: exI [of _ "nat (v - 1)"])
  show ?thesis
  proof (cases "1 \<le> v \<and> v \<le> int n")
    case True
    with z [of "descriptions ! nat (v - 1)"] d show ?thesis by (simp add: schemaAt_def map_of_eq_Some_iff [OF d])
  next
    case False
    with z have "v \<notin> fst ` set ?z" by force
    with False show ?thesis by (auto simp: schemaAt_def map_of_eq_None_iff)
  qed
qed

lemma schemaAt_Suc:
  assumes "n < 5"
  shows "sTables (schemaAt (Suc n)) = insert (tdName (bankTables ! n)) (sTables (schemaAt n))"
    "sVersions (schemaAt (Suc n)) = (sVersions (schemaAt n))(int n + 1 \<mapsto> descriptions ! n)"
    "tdName (bankTables ! n) \<notin> sTables (schemaAt n)"
    "set (tdRefs (bankTables ! n)) \<subseteq> sTables (schemaAt n)"
    "unreferenced (sTables (schemaAt (Suc n))) (tdName (bankTables ! n))"
    "bankTables ! n \<in> set bankTables"
proof -
  show "sTables (schemaAt (Suc n)) = insert (tdName (bankTables ! n)) (sTables (schemaAt n))"
    using assms by (simp add: schemaAt_def take_Suc_conv_app_nth)
  show "sVersions (schemaAt (Suc n)) = (sVersions (schemaAt n))(int n + 1 \<mapsto> descriptions ! n)"
    using assms by (auto simp: fun_eq_iff schemaAt_versions)
  show "tdName (bankTables ! n) \<notin> sTables (schemaAt n)"
    "set (tdRefs (bankTables ! n)) \<subseteq> sTables (schemaAt n)"
    "unreferenced (sTables (schemaAt (Suc n))) (tdName (bankTables ! n))"
    using assms unfolding less_5
    by (auto simp: schemaAt_def bankTables_def unreferenced_def numeral_2_eq_2 numeral_3_eq_3
        eval_nat_numeral)
  show "bankTables ! n \<in> set bankTables" using assms by simp
qed


section \<open>The runner keeps the schema at a version\<close>

context migration_db
begin

lemma upTx_effect:
  assumes "j < 5" "sch w = schemaAt j" "upTx B (Migrations B ! j) w = (Inr x, w')"
  shows "sch w' = schemaAt (Suc j)"
proof -
  from assms(3) obtain n m w1 where
    c: "Exec B (tdCreate (bankTables ! j)) [] w = (Inr n, w1)" and
    i: "Exec B sqlInsertMigration [PInt (int j + 1), PTime (fst (TimeNow B w1)), PText (descriptions ! j)]
          (snd (TimeNow B w1)) = (Inr m, w')"
    unfolding upTx_def migration_nth [OF assms(1)] insertMigration_def by (auto elim!: bindpE)
  from create_table [OF schemaAt_Suc(6) [OF assms(1)] c] insert_version [OF i]
  show ?thesis using assms(1,2) by (simp add: time_keeps schemaAt_Suc)
qed

lemma downTx_effect:
  assumes "j < 5" "sch w = schemaAt (Suc j)" "downTx B (Migrations B ! j) w = (Inr x, w')"
  shows "sch w' = schemaAt j"
proof -
  from assms(3) obtain n m w1 where
    c: "Exec B (tdDrop (bankTables ! j)) [] w = (Inr n, w1)" and
    i: "Exec B sqlDeleteMigration [PInt (int j + 1)] w1 = (Inr m, w')"
    unfolding downTx_def migration_nth [OF assms(1)] deleteMigration_def by (auto elim!: bindpE)
  have "(sVersions (schemaAt j)) (int j + 1) = None"
    using assms(1) by (simp add: schemaAt_versions)
  with drop_table [OF schemaAt_Suc(6) [OF assms(1)] c] delete_version [OF i]
  show ?thesis using assms(1,2) schemaAt_Suc(3) [OF assms(1)]
    by (auto simp: schemaAt_Suc fun_upd_idem intro!: schema.equality)
qed

lemma begin_tx_step:
  assumes "BeginTxFunc B f w = (r, w')" "\<And>w1 x w2. sch w1 = sch w \<Longrightarrow> f w1 = (Inr x, w2) \<Longrightarrow> sch w2 = S"
  shows "(\<exists>e. r = Inl e) \<and> (sch w' = sch w \<or> sch w' = S) \<or> (\<exists>x. r = Inr x) \<and> sch w' = S"
  using begin_tx [OF assms(1)] assms(2) by metis

lemma upLoop_effect:
  assumes "j \<le> 5" "n \<le> 5" "sch w = schemaAt (max n j)"
    "upLoop B t (int n) (drop j (Migrations B)) w = (r, w')"
  shows "\<exists>k. max n j \<le> k \<and> int k \<le> max (int (max n j)) (min t 5) \<and> sch w' = schemaAt k \<and>
    (r = Inr () \<longrightarrow> int k = max (int (max n j)) (min t 5))"
  using assms
proof (induction "5 - j" arbitrary: j w)
  case 0
  then show ?case by (auto intro!: exI [of _ 5])
next
  case (Suc d)
  then have j: "j < 5" by simp
  then have ms: "drop j (Migrations B) = Migrations B ! j # drop (Suc j) (Migrations B)"
    by (simp add: Cons_nth_drop_Suc)
  have "d = 5 - Suc j" using Suc.hyps(2) by simp
  note IH = Suc.hyps(1) [OF this]
  show ?case
  proof (cases "int j + 1 > t \<or> j < n")
    case True
    then show ?thesis
    proof (cases "int j + 1 > t")
      case True
      then show ?thesis using Suc.prems j
        by (auto simp: ms migration_nth intro!: exI [of _ "max n j"])
    next
      case False
      with True have "max n (Suc j) = max n j" by auto
      with False True IH [of w] Suc.prems j show ?thesis
        by (simp add: ms migration_nth)
    qed
  next
    case False
    then have n: "max n j = j" "max n (Suc j) = Suc j" by auto
    from Suc.prems(4) False obtain r1 w1 where
      tx: "BeginTxFunc B (upTx B (Migrations B ! j)) w = (r1, w1)" and
      rest: "case r1 of Inl e \<Rightarrow> r = Inl e \<and> w' = w1
        | Inr x \<Rightarrow> upLoop B t (int n) (drop (Suc j) (Migrations B)) w1 = (r, w')"
      by (auto simp: ms migration_nth [OF j] elim!: bindpE)
    have "(\<exists>e. r1 = Inl e) \<and> (sch w1 = sch w \<or> sch w1 = schemaAt (Suc j)) \<or>
        (\<exists>x. r1 = Inr x) \<and> sch w1 = schemaAt (Suc j)"
      by (rule begin_tx_step [OF tx]) (use upTx_effect [OF j] Suc.prems(3) n in metis)
    then show ?thesis
    proof (elim disjE conjE exE)
      fix x assume "r1 = Inr x" "sch w1 = schemaAt (Suc j)"
      with IH [of w1] rest Suc.prems(2) j n(2)
      obtain k where "Suc j \<le> k" "int k \<le> max (int (Suc j)) (min t 5)" "sch w' = schemaAt k"
        "r = Inr () \<longrightarrow> int k = max (int (Suc j)) (min t 5)" by auto
      with False j n show ?thesis by (intro exI [of _ k]) auto
    next
      fix e assume "r1 = Inl e" "sch w1 = sch w"
      with rest Suc.prems(3) n show ?thesis by (auto intro!: exI [of _ j])
    next
      fix e assume "r1 = Inl e" "sch w1 = schemaAt (Suc j)"
      with rest False j n show ?thesis by (auto intro!: exI [of _ "Suc j"])
    qed
  qed
qed

lemma downLoop_effect:
  assumes "j \<le> 5" "n \<le> 5" "sch w = schemaAt (min n j)"
    "downLoop B t (int n) (rev (take j (Migrations B))) w = (r, w')"
  shows "\<exists>k. k \<le> min n j \<and> min (int (min n j)) (max 0 (t - 1)) \<le> int k \<and> sch w' = schemaAt k \<and>
    (r = Inr () \<longrightarrow> int k = min (int (min n j)) (max 0 (t - 1)))"
  using assms
proof (induction j arbitrary: w)
  case 0
  then show ?case by auto
next
  case (Suc j)
  then have j: "j < 5" by simp
  then have ms: "rev (take (Suc j) (Migrations B)) = Migrations B ! j # rev (take j (Migrations B))"
    by (simp add: take_Suc_conv_app_nth)
  show ?case
  proof (cases "int j + 1 > int n \<or> int j + 1 < t")
    case True
    then show ?thesis
    proof (cases "int j + 1 > int n")
      case True
      then have "min n (Suc j) = min n j" by auto
      with True Suc.IH [of w] Suc.prems j show ?thesis by (simp add: ms migration_nth)
    next
      case False
      with True Suc.prems j show ?thesis
        by (auto simp: ms migration_nth intro!: exI [of _ "Suc j"])
    qed
  next
    case False
    then have n: "min n (Suc j) = Suc j" "min n j = j" by auto
    from Suc.prems(4) False obtain r1 w1 where
      tx: "BeginTxFunc B (downTx B (Migrations B ! j)) w = (r1, w1)" and
      rest: "case r1 of Inl e \<Rightarrow> r = Inl e \<and> w' = w1
        | Inr x \<Rightarrow> downLoop B t (int n) (rev (take j (Migrations B))) w1 = (r, w')"
      by (auto simp: ms migration_nth [OF j] elim!: bindpE)
    have "(\<exists>e. r1 = Inl e) \<and> (sch w1 = sch w \<or> sch w1 = schemaAt j) \<or>
        (\<exists>x. r1 = Inr x) \<and> sch w1 = schemaAt j"
      by (rule begin_tx_step [OF tx]) (use downTx_effect [OF j] Suc.prems(3) n in metis)
    then show ?thesis
    proof (elim disjE conjE exE)
      fix x assume "r1 = Inr x" "sch w1 = schemaAt j"
      with Suc.IH [of w1] rest Suc.prems(2) j n(2)
      obtain k where "k \<le> j" "min (int j) (max 0 (t - 1)) \<le> int k" "sch w' = schemaAt k"
        "r = Inr () \<longrightarrow> int k = min (int j) (max 0 (t - 1))" by auto
      with False j n show ?thesis by (intro exI [of _ k]) auto
    next
      fix e assume "r1 = Inl e" "sch w1 = sch w"
      with rest Suc.prems(3) n show ?thesis by (auto intro!: exI [of _ "Suc j"])
    next
      fix e assume "r1 = Inl e" "sch w1 = schemaAt j"
      with rest False j n show ?thesis by (auto intro!: exI [of _ j])
    qed
  qed
qed

lemma max_version:
  assumes "sch w = schemaAt n" "n \<le> 5" "getMaxAppliedVersion B w = (Inr v, w')"
  shows "v = int n \<and> sch w' = sch w"
proof -
  have keep: "sch w' = sch w"
    using assms(3) query_keeps
    by (auto simp: getMaxAppliedVersion_def split: prod.splits sum.splits if_splits)
  from assms(3) consider (none) e where "QueryRow B sqlMaxVersion [] w = (Inl e, w')" "errors_Is e ErrNoRows" "v = 0"
    | (row) row where "QueryRow B sqlMaxVersion [] w = (Inr row, w')" "scanOne scanInt row = Inr v"
    by (auto simp: getMaxAppliedVersion_def split: prod.splits sum.splits if_splits)
  then show ?thesis
  proof cases
    case none
    then have "sVersions (schemaAt n) = Map.empty" using max_none assms(1) by metis
    then have "sVersions (schemaAt n) 1 = None" by simp
    then have "n = 0" using assms(2) by (simp add: schemaAt_versions split: if_splits)
    with none keep show ?thesis by simp
  next
    case row
    from max_row [OF row(1)] row(2) have "sVersions (schemaAt n) v \<noteq> None"
      "\<forall>u. sVersions (schemaAt n) u \<noteq> None \<longrightarrow> u \<le> v" using assms(1) by (auto simp: scanOne_def)
    then have "1 \<le> v \<and> v \<le> int n" "sVersions (schemaAt n) (int n) \<noteq> None \<longrightarrow> int n \<le> v"
      using assms(2) by (auto simp: schemaAt_versions split: if_splits)
    then have "v = int n" using assms(2) by (auto simp: schemaAt_versions split: if_splits)
    with keep show ?thesis by simp
  qed
qed

text \<open>What comes before the loops.\<close>

lemma ensure_effect: "ensureVersionTable B w = (r, w') \<Longrightarrow> sch w' = sch w"
  using exec_failed ensure_keeps by (auto simp: ensureVersionTable_def elim!: bindpE)

lemma version_read: "getMaxAppliedVersion B w = (r, w') \<Longrightarrow> sch w' = sch w"
  using query_keeps by (auto simp: getMaxAppliedVersion_def split: prod.splits sum.splits if_splits)

lemma prepare:
  assumes "bindp connect (\<lambda>_. bindp (ensureVersionTable B) (\<lambda>_. bindp (getMaxAppliedVersion B) loop)) w = (r, w')"
    and "sch w = schemaAt n" "n \<le> 5"
  obtains e where "r = Inl e" "sch w' = schemaAt n"
  | w1 where "sch w1 = schemaAt n" "loop (int n) w1 = (r, w')"
proof -
  from assms(1) show thesis
  proof (cases rule: bindpE)
    case (err e)
    then show thesis using connect_keeps that(1) assms(2) by metis
  next
    case conn: (ok x w0)
    then have s0: "sch w0 = schemaAt n" using connect_keeps assms(2) by metis
    from conn(2) show thesis
    proof (cases rule: bindpE)
      case (err e)
      then show thesis using ensure_effect that(1) s0 by metis
    next
      case ens: (ok y w1)
      then have s1: "sch w1 = schemaAt n" using ensure_effect s0 by metis
      from ens(2) show thesis
      proof (cases rule: bindpE)
        case (err e)
        then show thesis using version_read that(1) s1 by metis
      next
        case (ok v w2)
        with max_version [OF s1 assms(3) ok(1)] s1 show thesis by (intro that(2) [of w2]) auto
      qed
    qed
  qed
qed

lemma Up_effect:
  assumes "sch w = schemaAt n" "n \<le> 5" "Up B connect t w = (r, w')"
  shows "\<exists>k. n \<le> k \<and> int k \<le> max (int n) (min t 5) \<and> sch w' = schemaAt k \<and>
    (r = Inr () \<longrightarrow> int k = max (int n) (min t 5))"
  using assms(3) unfolding Up_def
proof (rule prepare [OF _ assms(1,2)])
  fix w1 assume "sch w1 = schemaAt n" "upLoop B t (int n) (Migrations B) w1 = (r, w')"
  then show ?thesis using upLoop_effect [of 0 n w1 t r w'] assms(2) by simp
qed auto

lemma Down_effect:
  assumes "sch w = schemaAt n" "n \<le> 5" "Down B connect t w = (r, w')"
  shows "\<exists>k. k \<le> n \<and> min (int n) (max 0 (t - 1)) \<le> int k \<and> sch w' = schemaAt k \<and>
    (r = Inr () \<longrightarrow> int k = min (int n) (max 0 (t - 1)))"
  using assms(3) unfolding Down_def
proof (rule prepare [OF _ assms(1,2)])
  fix w1 assume "sch w1 = schemaAt n" "downLoop B t (int n) (rev (Migrations B)) w1 = (r, w')"
  then show ?thesis using downLoop_effect [of 5 n w1 t r w'] assms(2) by (simp add: min_absorb1)
qed auto

end

section \<open>The runner succeeds on a server that is up\<close>

context migration_up
begin

lemma upTx_succeeds:
  assumes "j < 5" "sch w = schemaAt j" "vtab w"
  shows "\<exists>x w'. upTx B (Migrations B ! j) w = (Inr x, w') \<and> vtab w'"
proof -
  from up_create_table [OF schemaAt_Suc(6) [OF assms(1)], of w] schemaAt_Suc(3,4) [OF assms(1)] assms(2)
  obtain n w1 where c: "Exec B (tdCreate (bankTables ! j)) [] w = (Inr n, w1)" by auto
  let ?w = "snd (TimeNow B w1)"
  have "sVersions (sch ?w) (int j + 1) = None"
    using create_table [OF schemaAt_Suc(6) [OF assms(1)] c] assms by (simp add: time_keeps schemaAt_versions)
  moreover have v: "vtab ?w" using vtab_create [OF schemaAt_Suc(6) [OF assms(1)] c] assms(3) by (simp add: vtab_time)
  ultimately obtain m w2 where
    i: "Exec B sqlInsertMigration [PInt (int j + 1), PTime (fst (TimeNow B w1)), PText (descriptions ! j)] ?w = (Inr m, w2)"
    using up_insert_version by blast
  have "vtab w2" using vtab_insert [OF i] v by simp
  with c i show ?thesis
    by (auto simp: upTx_def migration_nth [OF assms(1)] insertMigration_def bindp_def)
qed

lemma downTx_succeeds:
  assumes "j < 5" "sch w = schemaAt (Suc j)" "vtab w"
  shows "\<exists>x w'. downTx B (Migrations B ! j) w = (Inr x, w') \<and> vtab w'"
proof -
  from up_drop_table [OF schemaAt_Suc(6) [OF assms(1)], of w] schemaAt_Suc(1,5) [OF assms(1)] assms(2)
  obtain n w1 where c: "Exec B (tdDrop (bankTables ! j)) [] w = (Inr n, w1)" by auto
  have v: "vtab w1" using vtab_drop [OF schemaAt_Suc(6) [OF assms(1)] c] assms(3) by simp
  then obtain m w2 where i: "Exec B sqlDeleteMigration [PInt (int j + 1)] w1 = (Inr m, w2)"
    using up_delete_version by blast
  have "vtab w2" using vtab_delete [OF i] v by simp
  with c i show ?thesis
    by (auto simp: downTx_def migration_nth [OF assms(1)] deleteMigration_def bindp_def)
qed

lemma begin_tx_succeeds:
  assumes "vtab w"
    and "\<And>w1. sch w1 = sch w \<Longrightarrow> vtab w1 \<Longrightarrow> \<exists>x w2. f w1 = (Inr x, w2) \<and> vtab w2"
    and "\<And>w1 x w2. sch w1 = sch w \<Longrightarrow> f w1 = (Inr x, w2) \<Longrightarrow> sch w2 = S"
  obtains x w' where "BeginTxFunc B f w = (Inr x, w')" "sch w' = S" "vtab w'"
proof -
  from up_begin_tx [of w f] obtain w1 w' where w: "sch w1 = sch w" "vtab w1" "BeginTxFunc B f w = (fst (f w1), w')"
    "sch w' = (case fst (f w1) of Inl e \<Rightarrow> sch w | Inr x \<Rightarrow> sch (snd (f w1)))"
    "vtab w' = (case fst (f w1) of Inl e \<Rightarrow> vtab w | Inr x \<Rightarrow> vtab (snd (f w1)))" using assms(1) by auto
  from assms(2) [OF w(1,2)] obtain x w2 where x: "f w1 = (Inr x, w2)" "vtab w2" by blast
  with assms(3) [OF w(1)] w that show thesis by simp
qed

lemma upLoop_succeeds:
  assumes "j \<le> 5" "n \<le> 5" "sch w = schemaAt (max n j)" "vtab w"
  shows "fst (upLoop B t (int n) (drop j (Migrations B)) w) = Inr ()"
  using assms
proof (induction "5 - j" arbitrary: j w)
  case 0
  then show ?case by simp
next
  case (Suc d)
  then have j: "j < 5" by simp
  then have ms: "drop j (Migrations B) = Migrations B ! j # drop (Suc j) (Migrations B)"
    by (simp add: Cons_nth_drop_Suc)
  have "d = 5 - Suc j" using Suc.hyps(2) by simp
  note IH = Suc.hyps(1) [OF this]
  show ?case
  proof (cases "int j + 1 > t \<or> j < n")
    case True
    then have "int j + 1 > t \<or> max n (Suc j) = max n j" by auto
    with True show ?thesis using IH [of w] Suc.prems j by (auto simp: ms migration_nth)
  next
    case False
    then have n: "max n j = j" "max n (Suc j) = Suc j" by auto
    have a: "\<exists>x v'. upTx B (Migrations B ! j) v = (Inr x, v') \<and> vtab v'" if "sch v = sch w" "vtab v" for v
      using upTx_succeeds [OF j _ that(2)] Suc.prems(3) n(1) that(1) by simp
    have b: "sch v' = schemaAt (Suc j)" if "sch v = sch w" "upTx B (Migrations B ! j) v = (Inr x, v')" for v x v'
      using upTx_effect [OF j _ that(2)] Suc.prems(3) n(1) that(1) by simp
    obtain x w1 where "BeginTxFunc B (upTx B (Migrations B ! j)) w = (Inr x, w1)" "sch w1 = schemaAt (Suc j)"
      "vtab w1" by (rule begin_tx_succeeds [OF Suc.prems(4) a b])
    with IH [of w1] Suc.prems j n False show ?thesis by (simp add: ms migration_nth bindp_def)
  qed
qed

lemma downLoop_succeeds:
  assumes "j \<le> 5" "n \<le> 5" "sch w = schemaAt (min n j)" "vtab w"
  shows "fst (downLoop B t (int n) (rev (take j (Migrations B))) w) = Inr ()"
  using assms
proof (induction j arbitrary: w)
  case 0
  then show ?case by simp
next
  case (Suc j)
  then have j: "j < 5" by simp
  then have ms: "rev (take (Suc j) (Migrations B)) = Migrations B ! j # rev (take j (Migrations B))"
    by (simp add: take_Suc_conv_app_nth)
  show ?case
  proof (cases "int j + 1 > int n \<or> int j + 1 < t")
    case True
    then have "(int j + 1 \<le> int n \<and> int j + 1 < t) \<or> int j + 1 > int n \<and> min n (Suc j) = min n j" by auto
    with Suc.IH [of w] Suc.prems j show ?thesis by (auto simp: ms migration_nth)
  next
    case False
    then have n: "min n (Suc j) = Suc j" "min n j = j" by auto
    have a: "\<exists>x v'. downTx B (Migrations B ! j) v = (Inr x, v') \<and> vtab v'" if "sch v = sch w" "vtab v" for v
      using downTx_succeeds [OF j _ that(2)] Suc.prems(3) n(1) that(1) by simp
    have b: "sch v' = schemaAt j" if "sch v = sch w" "downTx B (Migrations B ! j) v = (Inr x, v')" for v x v'
      using downTx_effect [OF j _ that(2)] Suc.prems(3) n(1) that(1) by simp
    obtain x w1 where "BeginTxFunc B (downTx B (Migrations B ! j)) w = (Inr x, w1)" "sch w1 = schemaAt j"
      "vtab w1" by (rule begin_tx_succeeds [OF Suc.prems(4) a b])
    with Suc.IH [of w1] Suc.prems j n False show ?thesis by (simp add: ms migration_nth bindp_def)
  qed
qed

text \<open>The version table need not exist before: \<open>ensureVersionTable\<close> makes it.\<close>

lemma prepare_succeeds:
  assumes "sch w = schemaAt n" "n \<le> 5"
  obtains w1 where "sch w1 = schemaAt n" "vtab w1"
    "bindp connect (\<lambda>_. bindp (ensureVersionTable B) (\<lambda>_. bindp (getMaxAppliedVersion B) loop)) w =
      loop (int n) w1"
proof -
  obtain w0 where c: "connect w = (Inr (), w0)" using up_connect by blast
  then have s0: "sch w0 = schemaAt n" using connect_keeps assms(1) by metis
  obtain m w1 where w1: "Exec B sqlEnsureVersionTable [] w0 = (Inr m, w1)" "vtab w1" using up_ensure by blast
  then have e: "ensureVersionTable B w0 = (Inr (), w1)" by (simp add: ensureVersionTable_def bindp_def)
  then have s1: "sch w1 = schemaAt n" using ensure_effect s0 by metis
  have "\<exists>v w2. getMaxAppliedVersion B w1 = (Inr v, w2) \<and> vtab w2"
    using up_max [OF w1(2)] max_row [of w1] vtab_query [of w1] w1(2)
    by (force simp: getMaxAppliedVersion_def scanOne_def)
  then obtain v w2 where v: "getMaxAppliedVersion B w1 = (Inr v, w2)" "vtab w2" by blast
  from max_version [OF s1 assms(2) v(1)] s1 c e v show thesis
    by (intro that [of w2]) (auto simp: bindp_def)
qed

lemma Up_succeeds:
  assumes "sch w = schemaAt n" "n \<le> 5"
  shows "fst (Up B connect t w) = Inr ()"
proof -
  obtain w1 where "sch w1 = schemaAt n" "vtab w1" "Up B connect t w = upLoop B t (int n) (Migrations B) w1"
    unfolding Up_def by (rule prepare_succeeds [OF assms])
  with upLoop_succeeds [of 0 n w1 t] assms(2) show ?thesis by simp
qed

lemma Down_succeeds:
  assumes "sch w = schemaAt n" "n \<le> 5"
  shows "fst (Down B connect t w) = Inr ()"
proof -
  obtain w1 where "sch w1 = schemaAt n" "vtab w1" "Down B connect t w = downLoop B t (int n) (rev (Migrations B)) w1"
    unfolding Down_def by (rule prepare_succeeds [OF assms])
  with downLoop_succeeds [of 5 n w1 t] assms(2) show ?thesis by (simp add: min_absorb1)
qed

end

section \<open>A reference engine\<close>

text \<open>The schema as lists and whether \<open>__db_migrations\<close> exists, with the statements of the migrations as executable functions.\<close>

record migEngine =
  meTables :: "string list"
  meHasVersions :: bool
  meVersions :: "(int \<times> string) list"

definition migSchema :: "migEngine \<Rightarrow> schema" where
  "migSchema w = \<lparr>sTables = set (meTables w), sVersions = map_of (meVersions w)\<rparr>"

definition migCreate :: "tableDef \<Rightarrow> (migEngine, error, int) prog" where
  "migCreate d w =
     (if tdName d \<in> set (meTables w) then (Inl (PgError ''42P07'' ''relation already exists''), w)
      else if \<not> list_all (\<lambda>t. t \<in> set (meTables w)) (tdRefs d)
        then (Inl (PgError ''42P01'' ''relation does not exist''), w)
      else (Inr 0, w\<lparr>meTables := tdName d # meTables w\<rparr>))"

definition migDrop :: "tableDef \<Rightarrow> (migEngine, error, int) prog" where
  "migDrop d w =
     (if tdName d \<notin> set (meTables w) then (Inl (PgError ''42P01'' ''table does not exist''), w)
      else if list_ex (\<lambda>u. tdName u \<in> set (meTables w) \<and> tdName d \<in> set (tdRefs u)) bankTables
        then (Inl (PgError ''2BP01'' ''other objects depend on it''), w)
      else (Inr 0, w\<lparr>meTables := filter (\<lambda>t. t \<noteq> tdName d) (meTables w)\<rparr>))"

fun migInsert :: "pgval list \<Rightarrow> (migEngine, error, int) prog" where
  "migInsert [PInt v, PTime t, PText s] w =
     (if \<not> meHasVersions w then (Inl (PgError ''42P01'' ''relation does not exist''), w)
      else if map_of (meVersions w) v \<noteq> None then (Inl (PgError ''23505'' ''duplicate key value''), w)
      else (Inr 1, w\<lparr>meVersions := (v, s) # meVersions w\<rparr>))"
| "migInsert _ w = (Inl (PgError ''42601'' ''syntax error''), w)"

fun migDelete :: "pgval list \<Rightarrow> (migEngine, error, int) prog" where
  "migDelete [PInt v] w =
     (if \<not> meHasVersions w then (Inl (PgError ''42P01'' ''relation does not exist''), w)
      else (Inr 1, w\<lparr>meVersions := filter (\<lambda>p. fst p \<noteq> v) (meVersions w)\<rparr>))"
| "migDelete _ w = (Inl (PgError ''42601'' ''syntax error''), w)"

definition migExec :: "string \<Rightarrow> pgval list \<Rightarrow> (migEngine, error, int) prog" where
  "migExec sql args =
     (if sql = sqlEnsureVersionTable then (\<lambda>w. (Inr 0, w\<lparr>meHasVersions := True\<rparr>))
      else if sql = sqlInsertMigration then migInsert args
      else if sql = sqlDeleteMigration then migDelete args
      else case find (\<lambda>d. tdCreate d = sql) bankTables of
        Some d \<Rightarrow> migCreate d
      | None \<Rightarrow>
          (case find (\<lambda>d. tdDrop d = sql) bankTables of
             Some d \<Rightarrow> migDrop d
           | None \<Rightarrow> failp (PgError ''42601'' ''syntax error'')))"

definition migRow :: "string \<Rightarrow> pgval list \<Rightarrow> (migEngine, error, pgval list) prog" where
  "migRow sql args w =
     (if \<not> meHasVersions w then (Inl (PgError ''42P01'' ''relation does not exist''), w)
      else case map fst (meVersions w) of
        [] \<Rightarrow> (Inl ErrNoRows, w)
      | v # vs \<Rightarrow> (Inr [PInt (fold max vs v)], w))"

definition migBegin :: "(migEngine, error, int list) prog \<Rightarrow> (migEngine, error, int list) prog" where
  "migBegin f w = (case f w of (Inr x, w1) \<Rightarrow> (Inr x, w1) | (Inl e, w1) \<Rightarrow> (Inl e, w))"

definition migB :: "migEngine backend" where
  "migB = \<lparr>Exec = migExec, Query = (\<lambda>sql args w. (Inr [], w)), QueryRow = migRow,
     BeginTxFunc = migBegin, NextID = (\<lambda>w. (0, w)), NowUTC = (\<lambda>w. (0, w)), TimeNow = (\<lambda>w. (0, w))\<rparr>"

definition migEmpty :: migEngine where
  "migEmpty = \<lparr>meTables = [], meHasVersions = False, meVersions = []\<rparr>"

lemma migB_sel [simp]:
  "Exec migB = migExec" "QueryRow migB = migRow" "BeginTxFunc migB = migBegin" "TimeNow migB = (\<lambda>w. (0, w))"
  by (simp_all add: migB_def)

lemma migSchema_sel [simp]:
  "sTables (migSchema w) = set (meTables w)" "sVersions (migSchema w) = map_of (meVersions w)"
  by (simp_all add: migSchema_def)

lemma map_of_filter_fst_neq: "map_of (filter (\<lambda>p. fst p \<noteq> v) xs) = (map_of xs)(v := None)"
  by (induction xs) (auto simp: fun_eq_iff)

lemma mig_statements_apart:
  "list_all (\<lambda>d. find (\<lambda>x. tdCreate x = tdCreate d) bankTables = Some d \<and>
     find (\<lambda>x. tdCreate x = tdDrop d) bankTables = None \<and>
     find (\<lambda>x. tdDrop x = tdDrop d) bankTables = Some d \<and>
     tdCreate d \<notin> {sqlEnsureVersionTable, sqlInsertMigration, sqlDeleteMigration} \<and>
     tdDrop d \<notin> {sqlEnsureVersionTable, sqlInsertMigration, sqlDeleteMigration}) bankTables"
  by code_simp

lemma migExec_ddl:
  assumes "d \<in> set bankTables"
  shows "migExec (tdCreate d) args = migCreate d" "migExec (tdDrop d) args = migDrop d"
  using mig_statements_apart assms by (auto simp: migExec_def list_all_iff)

lemma migExec_versions [simp]:
  "migExec sqlEnsureVersionTable args = (\<lambda>w. (Inr 0, w\<lparr>meHasVersions := True\<rparr>))"
  "migExec sqlInsertMigration args = migInsert args"
  "migExec sqlDeleteMigration args = migDelete args"
  by (simp_all add: migExec_def) (simp_all add: sqlEnsureVersionTable_def sqlInsertMigration_def sqlDeleteMigration_def)

lemma migExec_failed: "migExec sql args w = (Inl e, w') \<Longrightarrow> w' = w"
  unfolding migExec_def migCreate_def migDrop_def
  by (auto elim!: migInsert.elims migDelete.elims split: if_splits option.splits)

lemma fold_max_mem: "fold max vs (v::int) \<in> set (v # vs) \<and> (\<forall>u \<in> set (v # vs). u \<le> fold max vs v)"
proof (induction vs arbitrary: v)
  case (Cons a vs)
  from Cons [of "max a v"] show ?case by (auto simp: max_def split: if_splits)
qed simp

lemma migRow_some:
  assumes "migRow sql args w = (Inr row, w')"
  shows "\<exists>v. row = [PInt v] \<and> map_of (meVersions w) v \<noteq> None \<and> (\<forall>u. map_of (meVersions w) u \<noteq> None \<longrightarrow> u \<le> v)"
proof -
  from assms obtain v vs where v: "map fst (meVersions w) = v # vs" "row = [PInt (fold max vs v)]"
    by (auto simp: migRow_def split: list.splits if_splits)
  have "map_of (meVersions w) u \<noteq> None \<longleftrightarrow> u \<in> set (v # vs)" for u
    using v(1) by (metis list.set_map map_of_eq_None_iff)
  with fold_max_mem [of vs v] v(2) show ?thesis by auto
qed

interpretation mig: migration_db migB "returnp ()" migSchema
proof unfold_locales
  fix f :: "(migEngine, error, int list) prog" and w w' r
  assume "BeginTxFunc migB f w = (r, w')"
  then show "(\<exists>e. r = Inl e) \<and> migSchema w' = migSchema w \<or>
      (\<exists>w1 x w2. migSchema w1 = migSchema w \<and> f w1 = (Inr x, w2) \<and> migSchema w' = migSchema w2 \<and>
         (r = Inr x \<or> (\<exists>e. r = Inl e)))"
    by (cases "f w") (auto simp: migBegin_def split: sum.splits)
next
  fix w row w'
  assume "QueryRow migB sqlMaxVersion [] w = (Inr row, w')"
  then show "\<exists>v. row = [PInt v] \<and> sVersions (migSchema w) v \<noteq> None \<and>
      (\<forall>u. sVersions (migSchema w) u \<noteq> None \<longrightarrow> u \<le> v)"
    using migRow_some by simp
next
  fix w w' n d
  assume "d \<in> set bankTables" "Exec migB (tdDrop d) [] w = (Inr n, w')"
  then show "tdName d \<in> sTables (migSchema w) \<and> unreferenced (sTables (migSchema w)) (tdName d) \<and>
      migSchema w' = (migSchema w)\<lparr>sTables := sTables (migSchema w) - {tdName d}\<rparr>"
    by (auto simp: migExec_ddl migDrop_def unreferenced_def list_ex_iff migSchema_def split: if_splits)
next
  fix w w' n v
  assume "Exec migB sqlDeleteMigration [PInt v] w = (Inr n, w')"
  then show "migSchema w' = (migSchema w)\<lparr>sVersions := (sVersions (migSchema w))(v := None)\<rparr>"
    by (auto simp: migSchema_def map_of_filter_fst_neq split: if_splits)
qed (auto simp: migRow_def migExec_ddl migCreate_def list_all_iff migSchema_def
      dest: migExec_failed split: if_splits list.splits)


interpretation mig: migration_up migB "returnp ()" migSchema meHasVersions
proof unfold_locales
  fix f :: "(migEngine, error, int list) prog" and w
  show "\<exists>w1 w'. migSchema w1 = migSchema w \<and> meHasVersions w1 = meHasVersions w \<and>
      BeginTxFunc migB f w = (fst (f w1), w') \<and>
      migSchema w' = (case fst (f w1) of Inl e \<Rightarrow> migSchema w | Inr x \<Rightarrow> migSchema (snd (f w1))) \<and>
      meHasVersions w' = (case fst (f w1) of Inl e \<Rightarrow> meHasVersions w | Inr x \<Rightarrow> meHasVersions (snd (f w1)))"
    by (rule exI [of _ w]) (auto simp: migBegin_def split: prod.splits sum.splits)
next
  fix d w
  assume "d \<in> set bankTables" "tdName d \<in> sTables (migSchema w)"
    "unreferenced (sTables (migSchema w)) (tdName d)"
  then show "\<exists>n w'. Exec migB (tdDrop d) [] w = (Inr n, w')"
    by (auto simp: migExec_ddl migDrop_def unreferenced_def list_ex_iff)
qed (auto simp: migExec_ddl migCreate_def migDrop_def list_all_iff migRow_def split: list.splits if_splits)

section \<open>Properties\<close>

text \<open>
  C10: The database is always at a version. Started on a database with the first \<open>n\<close> migrations
  applied, \<open>Up\<close> leaves it with the first \<open>k\<close> applied, their tables and version rows included, for a
  \<open>k\<close> between \<open>n\<close> and the target, whatever statement or commit failed; without an error \<open>k\<close> is
  the target (at most the last version, at least \<open>n\<close>).
\<close>

theorem up_reaches_target:
  assumes "migration_db B connect sch" "sch w = schemaAt n" "n \<le> 5" "Up B connect t w = (r, w')"
  shows "\<exists>k. n \<le> k \<and> int k \<le> max (int n) (min t 5) \<and> sch w' = schemaAt k \<and>
    (r = Inr () \<longrightarrow> int k = max (int n) (min t 5))"
  using migration_db.Up_effect [OF assms(1-4)] .

lemma migEmpty_schema: "migSchema migEmpty = schemaAt 0"
  by (simp add: migSchema_def migEmpty_def schemaAt_def)

theorem up_reaches_target_witness:
  "fst (Up migB (returnp ()) 3 migEmpty) = Inr () \<and>
   migSchema (snd (Up migB (returnp ()) 3 migEmpty)) = schemaAt 3"
proof -
  have r: "fst (Up migB (returnp ()) 3 migEmpty) = Inr ()" by code_simp
  from up_reaches_target [OF mig.migration_db_axioms migEmpty_schema _ prod.collapse [symmetric], of 3]
  show ?thesis using r by auto
qed

text \<open>
  C24: \<open>Down\<close> with a target \<open>t\<close> reverts the applied migrations from the newest down to \<open>t\<close>
  itself, so it ends at version \<open>t - 1\<close>; a failure leaves the database at a version in between.
\<close>

theorem down_reverts_target:
  assumes "migration_db B connect sch" "sch w = schemaAt n" "n \<le> 5" "Down B connect t w = (r, w')"
  shows "\<exists>k. k \<le> n \<and> min (int n) (max 0 (t - 1)) \<le> int k \<and> sch w' = schemaAt k \<and>
    (r = Inr () \<longrightarrow> int k = min (int n) (max 0 (t - 1)))"
  using migration_db.Down_effect [OF assms(1-4)] .

theorem down_reverts_target_witness:
  "\<exists>k \<le> 5. migSchema (snd (Down migB (returnp ()) 3 (snd (Up migB (returnp ()) 999 migEmpty)))) = schemaAt k \<and>
     k = 2"
proof -
  let ?w = "snd (Up migB (returnp ()) 999 migEmpty)"
  have r: "fst (Down migB (returnp ()) 3 ?w) = Inr ()" by code_simp
  have "fst (Up migB (returnp ()) 999 migEmpty) = Inr ()" by code_simp
  with mig.Up_effect [OF migEmpty_schema _ prod.collapse [symmetric], of 999]
  have "migSchema ?w = schemaAt 5" by auto
  from down_reverts_target [OF mig.migration_db_axioms this _ prod.collapse [symmetric], of 3] r
  show ?thesis by auto
qed

text \<open>
  C23: The order of the migrations respects the foreign keys: on a server that is up, \<open>Up\<close> and
  \<open>Down\<close> succeed from every version and to every target, and going down to 1 after going up
  gives back the empty schema. The version table need not exist before, although reading and
  writing versions fails without it.
\<close>

theorem migrations_run_both_ways:
  assumes "migration_up B connect sch vtab" "sch w = schemaAt n" "n \<le> 5"
  shows "\<exists>w1 w2. Up B connect t w = (Inr (), w1) \<and> sch w1 = schemaAt (max n (nat (min t 5))) \<and>
    Down B connect 1 w1 = (Inr (), w2) \<and> sch w2 = schemaAt 0"
proof -
  note db = migration_up.axioms(1) [OF assms(1)]
  obtain w1 where u: "Up B connect t w = (Inr (), w1)"
    using migration_up.Up_succeeds [OF assms] by (metis prod.collapse)
  from migration_db.Up_effect [OF db assms(2,3) u] obtain k where
    k: "int k = max (int n) (min t 5)" "sch w1 = schemaAt k" by auto
  then have "k \<le> 5" "k = max n (nat (min t 5))" using assms(3) by auto
  moreover obtain w2 where d: "Down B connect 1 w1 = (Inr (), w2)"
    using migration_up.Down_succeeds [OF assms(1) k(2) \<open>k \<le> 5\<close>] by (metis prod.collapse)
  ultimately show ?thesis
    using migration_db.Down_effect [OF db k(2) _ d] u k(2) by auto
qed

theorem migrations_run_both_ways_witness:
  "\<exists>w1 w2. Up migB (returnp ()) 999 migEmpty = (Inr (), w1) \<and> migSchema w1 = schemaAt 5 \<and>
    Down migB (returnp ()) 1 w1 = (Inr (), w2) \<and> migSchema w2 = schemaAt 0"
  using migrations_run_both_ways [OF mig.migration_up_axioms migEmpty_schema, of 999] by simp


section \<open>The migration command\<close>

text \<open>\<open>src/cmd/bank_migrations/main.go\<close>: \<open>log.Fatal\<close> prints its argument and exits.\<close>

datatype exit = Returned | Fatal string

definition migrationsMain ::
  "string \<Rightarrow> 'w backend \<Rightarrow> (string \<Rightarrow> ('w, error, unit) prog) \<Rightarrow> 'w \<Rightarrow> exit \<times> 'w" where
  "migrationsMain dsn B connect w =
     (if dsn = '''' then (Fatal ''DB_URL is not set'', w)
      else case Up B (connect dsn) 999 w of
        (Inl err, w1) \<Rightarrow> (Fatal (errorText err), w1)
      | (Inr _, w1) \<Rightarrow> (Returned, w1))"

text \<open>
  The migration command brings the database to the last version: when it returns, all five
  migrations are applied, from whichever version it started.
\<close>

theorem migration_command_completes:
  assumes "migration_db B (connect dsn) sch" "sch w = schemaAt n" "n \<le> 5"
    and "migrationsMain dsn B connect w = (Returned, w')"
  shows "sch w' = schemaAt 5"
proof -
  have "Up B (connect dsn) 999 w = (Inr (), w')"
    using assms(4) by (auto simp: migrationsMain_def split: if_splits prod.splits sum.splits)
  from migration_db.Up_effect [OF assms(1-3) this] assms(3) show ?thesis by auto
qed

theorem migration_command_completes_witness:
  "migSchema (snd (migrationsMain ''postgres://'' migB (\<lambda>_. returnp ()) migEmpty)) = schemaAt 5"
proof -
  have "fst (migrationsMain ''postgres://'' migB (\<lambda>_. returnp ()) migEmpty) = Returned" by code_simp
  then have "migrationsMain ''postgres://'' migB (\<lambda>_. returnp ()) migEmpty =
      (Returned, snd (migrationsMain ''postgres://'' migB (\<lambda>_. returnp ()) migEmpty))"
    by (metis prod.collapse)
  from migration_command_completes [OF mig.migration_db_axioms migEmpty_schema _ this] show ?thesis by simp
qed

end
