(* ===== verification/Http_Server.thy ===== *)
theory Http_Server
  imports Strconv
begin

text \<open>
  The HTTP server of \<open>src/internal/httpserver/server.go\<close>: the parser of a connection
  (\<open>handleConnection\<close>), the writer of responses and the header names. A connection is the string
  of bytes the client sends before it closes. Names and values of headers are ASCII: on other bytes
  the case mapping and the trimming of Go follow Unicode, so the properties ask for \<open>ascii\<close> header
  lines; a body is any bytes. \<open>bufio.Reader.Read\<close> may return fewer bytes than asked for: how many is
  the parameter \<open>readN\<close>, cut by \<open>bytesRead\<close> to what was asked for and what is there. Goroutines of
  different connections share nothing, except that \<open>log.Fatal\<close> and a panic end the whole process.
\<close>

section \<open>Strings\<close>

text \<open>\<open>strings.Split\<close> and \<open>strings.Join\<close> with a separator of one byte.\<close>

fun splitOn :: "char \<Rightarrow> string \<Rightarrow> string list" where
  "splitOn s [] = [[]]"
| "splitOn s (c # cs) =
     (if c = s then [] # splitOn s cs
      else case splitOn s cs of [] \<Rightarrow> [[c]] | p # ps \<Rightarrow> (c # p) # ps)"

fun joinWith :: "char \<Rightarrow> string list \<Rightarrow> string" where
  "joinWith s [] = []"
| "joinWith s [p] = p"
| "joinWith s (p # ps) = p @ s # joinWith s ps"

definition isSpace :: "char \<Rightarrow> bool" where
  "isSpace c \<longleftrightarrow> (let n = of_char c :: nat in 9 \<le> n \<and> n \<le> 13 \<or> n = 32)"

definition trimSpace :: "string \<Rightarrow> string" where
  "trimSpace s = rev (dropWhile isSpace (rev (dropWhile isSpace s)))"

text \<open>\<open>strings.IndexByte\<close> used to cut a line at its first colon.\<close>

definition cutAt :: "char \<Rightarrow> string \<Rightarrow> (string \<times> string) option" where
  "cutAt c s = (if c \<in> set s then Some (takeWhile (\<lambda>x. x \<noteq> c) s, tl (dropWhile (\<lambda>x. x \<noteq> c) s)) else None)"

abbreviation CR :: char where "CR \<equiv> CHR 0x0D"
abbreviation LF :: char where "LF \<equiv> CHR 0x0A"
abbreviation crlf :: string where "crlf \<equiv> [CR, LF]"

section \<open>Requests and responses\<close>

definition contentLength :: string where
  "contentLength = ''Content-Length''"

record Request =
  Method :: string
  Path :: string
  Headers :: "string \<rightharpoonup> string"
  Body :: string

definition normalizePart :: "string \<Rightarrow> string" where
  "normalizePart part = (case part of [] \<Rightarrow> [] | c # cs \<Rightarrow> toUpper c # map toLower cs)"

definition normalizeHeaderName :: "string \<Rightarrow> string" where
  "normalizeHeaderName name = joinWith CHR ''-'' (map normalizePart (splitOn CHR ''-'' name))"

definition makeHeader :: "string \<Rightarrow> string \<Rightarrow> string" where
  "makeHeader name value = name @ '': '' @ value"

text \<open>The map of headers as the list of its entries in the order of the iteration.\<close>

fun headerLines :: "(string \<times> string) list \<Rightarrow> string" where
  "headerLines [] = []"
| "headerLines ((k, v) # hs) =
     (let name = normalizeHeaderName k
      in if name = contentLength then headerLines hs
         else makeHeader name v @ crlf @ headerLines hs)"

text \<open>
  \<open>Write\<close> hands the connection two strings: the status line with the headers, then the body; the
  first failing write ends it. \<open>connWrite\<close> is the \<open>Write\<close> method of the connection.
\<close>

definition headText :: "int \<Rightarrow> (string \<times> string) list \<Rightarrow> string \<Rightarrow> string" where
  "headText statusCode headers body =
     ''HTTP/1.1 '' @ itoa statusCode @ crlf @ headerLines headers @
     makeHeader contentLength (itoa (int (length body))) @ crlf @ crlf"

definition Write ::
  "(string \<Rightarrow> ('w, 'e, unit) prog) \<Rightarrow> int \<Rightarrow> (string \<times> string) list \<Rightarrow> string \<Rightarrow> ('w, 'e, unit) prog" where
  "Write connWrite statusCode headers body =
     bindp (connWrite (headText statusCode headers body)) (\<lambda>_.
     bindp (connWrite body) (\<lambda>_. returnp ()))"


section \<open>Reading a request\<close>

datatype outcome =
    Handled Request
  | LogFatal string
  | Panics string

text \<open>\<open>ReadString\<close> with a newline: the line with its newline and the rest, \<open>None\<close> at the end of input.\<close>

definition readString :: "string \<Rightarrow> (string \<times> string) option" where
  "readString s =
     (if LF \<in> set s then Some (takeWhile (\<lambda>x. x \<noteq> LF) s @ [LF], tl (dropWhile (\<lambda>x. x \<noteq> LF) s)) else None)"

text \<open>\<open>make([]byte, n)\<close> panics for a length out of range; the limit is the address space of the heap.\<close>

definition makeFails :: "int \<Rightarrow> bool" where
  "makeFails n \<longleftrightarrow> n < 0 \<or> n > 2 ^ 48"

text \<open>How many bytes one \<open>Read\<close> into a slice of length \<open>n\<close> returns.\<close>

definition bytesRead :: "(nat \<Rightarrow> string \<Rightarrow> nat) \<Rightarrow> nat \<Rightarrow> string \<Rightarrow> nat" where
  "bytesRead readN n rest = min (readN n rest) (min n (length rest))"

definition readBody :: "(nat \<Rightarrow> string \<Rightarrow> nat) \<Rightarrow> Request \<Rightarrow> string \<Rightarrow> outcome" where
  "readBody readN request rest =
     (case Headers request contentLength of
        None \<Rightarrow> Handled request
      | Some contentLenStr \<Rightarrow>
          let contentLen = (case parseInt contentLenStr of None \<Rightarrow> 0 | Some n \<Rightarrow> n)
          in if makeFails contentLen then Panics ''makeslice: len out of range''
             else if contentLen > 0 \<and> rest = [] then LogFatal ''EOF''
             else
               let n = bytesRead readN (nat contentLen) rest
               in if int n \<noteq> contentLen
                  then LogFatal (''Expected to read '' @ contentLenStr @ '' bytes but read '' @ itoa (int n) @ '' bytes'')
                  else Handled (request\<lparr>Body := take n rest\<rparr>))"

text \<open>A header line, and the request line; the latter indexes the second part of the split.\<close>

definition headerLine :: "string \<Rightarrow> Request \<Rightarrow> Request" where
  "headerLine line request =
     (case cutAt CHR '':'' line of
        None \<Rightarrow> request
      | Some (before, after) \<Rightarrow>
          request\<lparr>Headers := (Headers request)
            (normalizeHeaderName (trimSpace before) \<mapsto> trimSpace after)\<rparr>)"

definition requestLine :: "string \<Rightarrow> Request \<Rightarrow> Request option" where
  "requestLine line request =
     (case splitOn CHR '' '' line of
        m # p # _ \<Rightarrow> Some (request\<lparr>Method := m, Path := p\<rparr>)
      | _ \<Rightarrow> None)"

lemma readString_shorter: "readString s = Some (line, rest) \<Longrightarrow> length rest < length s"
proof -
  assume r: "readString s = Some (line, rest)"
  then have "LF \<in> set s" and t: "rest = tl (dropWhile (\<lambda>x. x \<noteq> LF) s)"
    by (auto simp: readString_def split: if_splits)
  then have "dropWhile (\<lambda>x. x \<noteq> LF) s \<noteq> []" by (auto simp: dropWhile_eq_Nil_conv)
  then have "length (tl (dropWhile (\<lambda>x. x \<noteq> LF) s)) < length (dropWhile (\<lambda>x. x \<noteq> LF) s)" by simp
  also have "\<dots> \<le> length s" by (rule length_dropWhile_le)
  finally show ?thesis using t by simp
qed

function readRequest :: "(nat \<Rightarrow> string \<Rightarrow> nat) \<Rightarrow> int \<Rightarrow> Request \<Rightarrow> string \<Rightarrow> outcome" where
  "readRequest readN readLines request s =
     (case readString s of
        None \<Rightarrow> LogFatal ''EOF''
      | Some (line, rest) \<Rightarrow>
          if line = crlf then readBody readN request rest
          else if i64 (readLines + 1) = 1
          then (case requestLine line request of
                  None \<Rightarrow> Panics ''index out of range''
                | Some request1 \<Rightarrow> readRequest readN (i64 (readLines + 1)) request1 rest)
          else readRequest readN (i64 (readLines + 1)) (headerLine line request) rest)"
  by auto
termination
  by (relation "measure (\<lambda>(_, _, _, s). length s)") (auto dest: readString_shorter)

declare readRequest.simps [simp del]

definition emptyRequest :: Request where
  "emptyRequest = \<lparr>Method = '''', Path = '''', Headers = Map.empty, Body = ''''\<rparr>"

text \<open>What the handler is called with, or how the process ends.\<close>

definition handleConnection :: "(nat \<Rightarrow> string \<Rightarrow> nat) \<Rightarrow> string \<Rightarrow> outcome" where
  "handleConnection readN s = readRequest readN 0 emptyRequest s"


section \<open>The example server\<close>

text \<open>
  The handler of \<open>src/cmd/httpserver/main.go\<close>: the response it writes, and the error for which it
  calls \<open>log.Fatal\<close>.
\<close>

definition mainHandler :: "(string \<Rightarrow> ('w, 'e, unit) prog) \<Rightarrow> Request \<Rightarrow> ('w, 'e, unit) prog" where
  "mainHandler connWrite r =
     (if Path r = ''/json'' then
        Write connWrite 200 [(''Content-Type'', ''application/json'')] ''{\"hello\":\"world\"}''
      else if Path r = ''/text'' then
        Write connWrite 200 [(''Content-Type'', ''text/plain'')] ''hello world''
      else Write connWrite 404 [] [])"

section \<open>Parsing what a client prints\<close>

lemma bytesRead_le: "bytesRead readN n s \<le> n" "bytesRead readN n s \<le> length s"
  by (simp_all add: bytesRead_def)

lemma bytesRead_none [simp]: "bytesRead readN 0 s = 0" "bytesRead readN n [] = 0"
  by (simp_all add: bytesRead_def)

lemma readString_line: "LF \<notin> set l \<Longrightarrow> readString (l @ LF # rest) = Some (l @ [LF], rest)"
proof -
  assume "LF \<notin> set l"
  then have "\<And>x. x \<in> set l \<Longrightarrow> x \<noteq> LF" by auto
  then have "takeWhile (\<lambda>x. x \<noteq> LF) (l @ LF # rest) = l" "dropWhile (\<lambda>x. x \<noteq> LF) (l @ LF # rest) = LF # rest"
    by (simp_all add: takeWhile_append2 dropWhile_append2)
  then show ?thesis by (simp add: readString_def)
qed

lemma cutAt_first: "c \<notin> set k \<Longrightarrow> cutAt c (k @ c # r) = Some (k, r)"
proof -
  assume "c \<notin> set k"
  then have "\<And>x. x \<in> set k \<Longrightarrow> x \<noteq> c" by auto
  then have "takeWhile (\<lambda>x. x \<noteq> c) (k @ c # r) = k" "dropWhile (\<lambda>x. x \<noteq> c) (k @ c # r) = c # r"
    by (simp_all add: takeWhile_append2 dropWhile_append2)
  then show ?thesis by (simp add: cutAt_def)
qed

definition trimmed :: "string \<Rightarrow> bool" where
  "trimmed s \<longleftrightarrow> s = [] \<or> \<not> isSpace (hd s) \<and> \<not> isSpace (last s)"

lemma dropWhile_head: "s \<noteq> [] \<Longrightarrow> \<not> P (hd s) \<Longrightarrow> dropWhile P (s @ t) = s @ t"
  by (cases s) auto

lemma trimSpace_padded:
  assumes "trimmed s" "list_all isSpace a" "list_all isSpace b"
  shows "trimSpace (a @ s @ b) = s"
proof -
  have "dropWhile isSpace (a @ s @ b) = dropWhile isSpace (s @ b)"
    using assms(2) by (simp add: dropWhile_append2 list_all_iff)
  moreover have "dropWhile isSpace (rev b @ rev s) = dropWhile isSpace (rev s)"
    using assms(3) by (subst dropWhile_append2) (auto simp: list_all_iff)
  moreover have "dropWhile isSpace b = []"
    using assms(3) by (simp add: dropWhile_eq_Nil_conv list_all_iff)
  moreover have "dropWhile isSpace (s @ b) = s @ b \<and> dropWhile isSpace (rev s) = rev s" if "s \<noteq> []"
    using assms(1) that dropWhile_head [of s isSpace b] dropWhile_head [of "rev s" isSpace "[]"]
    by (simp add: trimmed_def hd_rev)
  ultimately show ?thesis by (cases "s = []") (auto simp: trimSpace_def dest: set_dropWhileD)
qed

lemma isSpace_simps [simp]: "isSpace CHR '' ''" "isSpace CR" "isSpace LF"
  by code_simp+

lemma trimSpace_value: "trimmed v \<Longrightarrow> trimSpace (CHR '' '' # v @ crlf) = v"
  using trimSpace_padded [of v "'' ''" crlf] by simp

lemma trimSpace_id: "trimmed k \<Longrightarrow> trimSpace k = k"
  using trimSpace_padded [of k "[]" "[]"] by simp

text \<open>The bytes of a request, as a client sends them.\<close>

definition printHeaders :: "(string \<times> string) list \<Rightarrow> string" where
  "printHeaders hs = concat (map (\<lambda>(k, v). makeHeader k v @ crlf) hs)"

definition printRequest :: "string \<Rightarrow> string \<Rightarrow> (string \<times> string) list \<Rightarrow> string \<Rightarrow> string" where
  "printRequest m p hs body =
     m @ '' '' @ p @ '' HTTP/1.1'' @ crlf @
     printHeaders (hs @ [(contentLength, itoa (int (length body)))]) @ crlf @ body"

definition ascii :: "string \<Rightarrow> bool" where
  "ascii s \<longleftrightarrow> list_all (\<lambda>c. (of_char c :: nat) < 128) s"

definition headerOk :: "string \<times> string \<Rightarrow> bool" where
  "headerOk h \<longleftrightarrow> CHR '':'' \<notin> set (fst h) \<and> LF \<notin> set (fst h) \<and> LF \<notin> set (snd h) \<and>
     trimmed (fst h) \<and> trimmed (snd h) \<and> ascii (fst h) \<and> ascii (snd h)"

fun addHeaders :: "(string \<times> string) list \<Rightarrow> (string \<rightharpoonup> string) \<Rightarrow> (string \<rightharpoonup> string)" where
  "addHeaders [] M = M"
| "addHeaders ((k, v) # hs) M = addHeaders hs (M(normalizeHeaderName k \<mapsto> v))"

lemma headerLine_printed:
  assumes "headerOk (k, v)"
  shows "headerLine (makeHeader k v @ crlf) r = r\<lparr>Headers := (Headers r)(normalizeHeaderName k \<mapsto> v)\<rparr>"
proof -
  have "makeHeader k v @ crlf = k @ CHR '':'' # CHR '' '' # v @ crlf" by (simp add: makeHeader_def)
  moreover have "cutAt CHR '':'' (k @ CHR '':'' # CHR '' '' # v @ crlf) = Some (k, CHR '' '' # v @ crlf)"
    by (rule cutAt_first) (use assms in \<open>simp add: headerOk_def\<close>)
  ultimately show ?thesis
    using assms by (simp add: headerLine_def headerOk_def trimSpace_value trimSpace_id)
qed

lemma readRequest_headers:
  assumes "list_all headerOk hs" "1 \<le> n" "n + int (length hs) < 2 ^ 63 - 1"
  shows "readRequest readN n r (printHeaders hs @ crlf @ body) =
    readBody readN (r\<lparr>Headers := addHeaders hs (Headers r)\<rparr>) body"
  using assms
proof (induction hs arbitrary: n r)
  case Nil
  have "readString (CR # LF # body) = Some (crlf, body)" using readString_line [of "[CR]" body] by simp
  then show ?case by (subst readRequest.simps) (simp add: printHeaders_def)
next
  case (Cons h hs)
  obtain k v where h: "h = (k, v)" by force
  let ?line = "makeHeader k v @ [CR]"
  have ok: "headerOk (k, v)" "LF \<notin> set ?line" using Cons.prems(1) h by (auto simp: headerOk_def makeHeader_def)
  have ps: "printHeaders (h # hs) @ crlf @ body = ?line @ LF # (printHeaders hs @ crlf @ body)"
    by (simp add: printHeaders_def h)
  have "makeHeader k v @ crlf \<noteq> crlf" by (auto simp: makeHeader_def append_eq_Cons_conv)
  moreover have "i64 (n + 1) = n + 1" using Cons.prems(2,3) by (simp add: i64_id in_i64_def)
  ultimately have "readRequest readN n r (printHeaders (h # hs) @ crlf @ body) =
      readRequest readN (n + 1) (headerLine (makeHeader k v @ crlf) r) (printHeaders hs @ crlf @ body)"
    unfolding ps using Cons.prems(2) readString_line [OF ok(2), of "printHeaders hs @ crlf @ body"]
    by (subst readRequest.simps) simp
  also have "\<dots> = readBody readN (r\<lparr>Headers := addHeaders (h # hs) (Headers r)\<rparr>) body"
    using Cons.IH [of "n + 1" "headerLine (makeHeader k v @ crlf) r"] Cons.prems
    by (simp add: headerLine_printed [OF ok(1)] h fun_upd_def)
  finally show ?case .
qed

lemma splitOn_first: "s \<notin> set m \<Longrightarrow> splitOn s (m @ s # r) = m # splitOn s r"
  by (induction m) auto

lemma normalize_contentLength [simp]: "normalizeHeaderName contentLength = contentLength"
  by code_simp

lemma contentLength_ok: "headerOk (contentLength, itoa i)"
proof -
  have chars: "set (digits n) \<subseteq> {c. isDigit c}" for n
  proof (induction n rule: digits.induct)
    case (1 n)
    have "n mod 10 < 10" by simp
    then show ?case using 1 digit_char(1) by (subst digits.simps) (auto split: if_splits)
  qed
  have sp: "\<not> isSpace c \<and> c \<noteq> LF \<and> (of_char c :: nat) < 128" if "isDigit c \<or> c = CHR ''-''" for c
    using that by (auto simp: isDigit_def isSpace_def Let_def)
  have "\<forall>c \<in> set (itoa i). isDigit c \<or> c = CHR ''-''" using chars by (auto simp: itoa_def)
  moreover have "itoa i \<noteq> []" using digits_first [of "nat i"] by (auto simp: itoa_def)
  ultimately have "\<not> isSpace (hd (itoa i))" "\<not> isSpace (last (itoa i))" "LF \<notin> set (itoa i)" "ascii (itoa i)"
    using sp by (auto simp: hd_in_set last_in_set ascii_def list_all_iff)
  moreover have "CHR '':'' \<notin> set contentLength \<and> LF \<notin> set contentLength \<and> trimmed contentLength \<and> ascii contentLength"
    by code_simp
  ultimately show ?thesis by (simp add: headerOk_def trimmed_def)
qed


section \<open>Header names\<close>

lemma case_dash: "toUpper c = CHR ''-'' \<longleftrightarrow> c = CHR ''-''" "toLower c = CHR ''-'' \<longleftrightarrow> c = CHR ''-''"
proof -
  have "of_char (toUpper c) = (45::nat) \<longleftrightarrow> of_char c = (45::nat)"
    "of_char (toLower c) = (45::nat) \<longleftrightarrow> of_char c = (45::nat)"
    by (auto simp: toUpper_def toLower_def Let_def of_char_of)
  moreover have "of_char x = (45::nat) \<longleftrightarrow> x = CHR ''-''" for x
    using of_char_eq_iff [of x "CHR ''-''", where ?'a = nat] by simp
  ultimately show "toUpper c = CHR ''-'' \<longleftrightarrow> c = CHR ''-''" "toLower c = CHR ''-'' \<longleftrightarrow> c = CHR ''-''"
    by simp_all
qed

lemma normalizePart_idem [simp]: "normalizePart (normalizePart p) = normalizePart p"
  by (cases p) (simp_all add: normalizePart_def comp_def)

lemma normalizePart_dash: "CHR ''-'' \<notin> set p \<Longrightarrow> CHR ''-'' \<notin> set (normalizePart p)"
  by (cases p) (simp_all add: normalizePart_def image_iff, metis case_dash)

lemma splitOn_parts: "p \<in> set (splitOn s cs) \<Longrightarrow> s \<notin> set p"
proof (induction cs arbitrary: p)
  case (Cons c cs)
  then show ?case by (cases "splitOn s cs") (auto split: if_splits)
qed simp

lemma splitOn_nonempty: "splitOn s cs \<noteq> []"
  by (induction cs) (auto split: list.splits)

lemma splitOn_none: "s \<notin> set p \<Longrightarrow> splitOn s p = [p]"
  by (induction p) auto

lemma splitOn_joinWith: "ps \<noteq> [] \<Longrightarrow> (\<And>p. p \<in> set ps \<Longrightarrow> s \<notin> set p) \<Longrightarrow> splitOn s (joinWith s ps) = ps"
  by (induction s ps rule: joinWith.induct) (auto simp: splitOn_none splitOn_first)

lemma normalizeHeaderName_idem: "normalizeHeaderName (normalizeHeaderName k) = normalizeHeaderName k"
proof -
  let ?ps = "map normalizePart (splitOn CHR ''-'' k)"
  have "splitOn CHR ''-'' (joinWith CHR ''-'' ?ps) = ?ps"
    by (rule splitOn_joinWith) (auto simp: splitOn_nonempty dest: splitOn_parts normalizePart_dash)
  then show ?thesis by (simp add: normalizeHeaderName_def comp_def)
qed


section \<open>Properties\<close>

text \<open>
  C14: A request a client prints is read back: if the method and path hold no space or newline, the
  header names no colon and newline, the values no newline, neither outer space, and both are
  ASCII, the handler is called with the same method, path, headers (under their normalised names)
  and body when the single read of the body returns all of it; when it returns fewer bytes the
  process exits.
\<close>

theorem http_request_roundtrip:
  assumes "CHR '' '' \<notin> set m" "CHR '' '' \<notin> set p" "LF \<notin> set m" "LF \<notin> set p"
    and "list_all headerOk hs" "int (length hs) < 2 ^ 62" "int (length body) \<le> 2 ^ 48"
  shows "handleConnection readN (printRequest m p hs body) =
    (if bytesRead readN (length body) body = length body
     then Handled \<lparr>Method = m, Path = p,
       Headers = addHeaders (hs @ [(contentLength, itoa (int (length body)))]) Map.empty, Body = body\<rparr>
     else LogFatal (''Expected to read '' @ itoa (int (length body)) @ '' bytes but read '' @
       itoa (int (bytesRead readN (length body) body)) @ '' bytes''))"
proof -
  let ?hs = "hs @ [(contentLength, itoa (int (length body)))]"
  let ?line = "m @ CHR '' '' # p @ '' HTTP/1.1'' @ [CR]"
  let ?r = "emptyRequest\<lparr>Method := m, Path := p\<rparr>"
  have lf: "LF \<notin> set ?line" using assms(3,4) by simp
  have ps: "printRequest m p hs body = ?line @ LF # (printHeaders ?hs @ crlf @ body)"
    by (simp add: printRequest_def)
  have rl: "requestLine (?line @ [LF]) emptyRequest = Some ?r"
  proof -
    have "splitOn CHR '' '' (m @ CHR '' '' # (p @ CHR '' '' # ''HTTP/1.1'' @ crlf)) =
        m # p # splitOn CHR '' '' (''HTTP/1.1'' @ crlf)"
      by (simp only: splitOn_first [OF assms(1)] splitOn_first [OF assms(2)])
    then show ?thesis by (simp add: requestLine_def)
  qed
  have "?line @ [LF] \<noteq> crlf" by (simp add: append_eq_Cons_conv)
  then have "handleConnection readN (printRequest m p hs body) =
      readRequest readN 1 ?r (printHeaders ?hs @ crlf @ body)"
    unfolding handleConnection_def ps
    using readString_line [OF lf, of "printHeaders ?hs @ crlf @ body"] rl
    by (subst readRequest.simps) (simp add: i64_id in_i64_def)
  also have "\<dots> = readBody readN (?r\<lparr>Headers := addHeaders ?hs (Headers ?r)\<rparr>) body"
    by (rule readRequest_headers) (use assms(5,6) in \<open>simp_all add: contentLength_ok\<close>)
  also have "\<dots> = (if bytesRead readN (length body) body = length body
     then Handled \<lparr>Method = m, Path = p, Headers = addHeaders ?hs Map.empty, Body = body\<rparr>
     else LogFatal (''Expected to read '' @ itoa (int (length body)) @ '' bytes but read '' @
       itoa (int (bytesRead readN (length body) body)) @ '' bytes''))"
  proof -
    have app: "addHeaders (hs @ [(k, v)]) M (normalizeHeaderName k) = Some v" for k v M
      by (induction hs arbitrary: M) auto
    have n: "parseInt (itoa (int (length body))) = Some (int (length body))"
      by (rule parseInt_itoa) (use assms(7) in \<open>simp add: in_i64_def\<close>)
    show ?thesis
      using app [of contentLength] assms(7) n
      by (auto simp: readBody_def makeFails_def emptyRequest_def Let_def)
  qed
  finally show ?thesis .
qed

text \<open>A connection whose reads return everything that is there, up to the length asked for.\<close>

definition fullRead :: "nat \<Rightarrow> string \<Rightarrow> nat" where
  "fullRead n s = min n (length s)"

lemma bytesRead_full: "bytesRead fullRead n s = min n (length s)"
  by (simp add: bytesRead_def fullRead_def)

theorem http_request_roundtrip_witness:
  "handleConnection fullRead (printRequest ''POST'' ''/json'' [(''x-kind'', ''a b'')] ''hello'') =
    Handled \<lparr>Method = ''POST'', Path = ''/json'',
      Headers = addHeaders [(''x-kind'', ''a b''), (contentLength, itoa 5)] Map.empty, Body = ''hello''\<rparr> \<and>
   handleConnection (\<lambda>n s. 3) (printRequest ''POST'' ''/json'' [(''x-kind'', ''a b'')] ''hello'') =
    LogFatal (''Expected to read '' @ itoa 5 @ '' bytes but read '' @ itoa 3 @ '' bytes'')"
proof -
  have "headerOk (''x-kind'', ''a b'')" by code_simp
  then show ?thesis
    using http_request_roundtrip [of "''POST''" "''/json''" "[(''x-kind'', ''a b'')]" "''hello''" fullRead]
      http_request_roundtrip [of "''POST''" "''/json''" "[(''x-kind'', ''a b'')]" "''hello''" "\<lambda>n s. 3"]
    by (simp add: bytesRead_full) (simp add: bytesRead_def)
qed




text \<open>How the process ended, if it did: by a panic or by \<open>log.Fatal\<close>, with the text.\<close>

fun endText :: "outcome \<Rightarrow> (bool \<times> string) option" where
  "endText (Handled r) = None"
| "endText (LogFatal s) = Some (False, s)"
| "endText (Panics s) = Some (True, s)"

lemma endText_iff:
  "q = Panics s \<longleftrightarrow> endText q = Some (True, s)" "q = LogFatal s \<longleftrightarrow> endText q = Some (False, s)"
  by (cases q; simp)+

section \<open>What every input does\<close>

text \<open>
  The bytes of a connection are lines, each up to a newline, and what comes after the last one. The
  head is the lines before the first blank one. Its first line holds the method and the path,
  the others the headers, of which the last one of a name counts.
\<close>

definition headLine :: "string \<Rightarrow> bool" where
  "headLine l \<longleftrightarrow> l \<noteq> [] \<and> last l = LF \<and> LF \<notin> set (butlast l) \<and> l \<noteq> crlf"

definition headerField :: "string \<Rightarrow> (string \<times> string) option" where
  "headerField l = map_option (\<lambda>(b, a). (normalizeHeaderName (trimSpace b), trimSpace a)) (cutAt CHR '':'' l)"

definition headersOf :: "string list \<Rightarrow> string \<rightharpoonup> string" where
  "headersOf ls = map_of (rev (List.map_filter headerField ls))"

definition requestOf :: "string list \<Rightarrow> Request" where
  "requestOf head =
     (case head of
        [] \<Rightarrow> emptyRequest
      | l # ls \<Rightarrow> \<lparr>Method = takeWhile (\<lambda>c. c \<noteq> CHR '' '') l,
          Path = takeWhile (\<lambda>c. c \<noteq> CHR '' '') (tl (dropWhile (\<lambda>c. c \<noteq> CHR '' '') l)),
          Headers = headersOf ls, Body = []\<rparr>)"

text \<open>The length the head declares, 0 when it is not a number.\<close>

definition declaredLength :: "string list \<Rightarrow> int option" where
  "declaredLength head = map_option (\<lambda>v. case parseInt v of None \<Rightarrow> 0 | Some n \<Rightarrow> n)
     (Headers (requestOf head) contentLength)"

lemma headLine_split: "headLine l \<longleftrightarrow> (\<exists>b. l = b @ [LF] \<and> LF \<notin> set b \<and> l \<noteq> crlf)"
  by (auto simp: headLine_def butlast_append) (metis append_butlast_last_id)

lemma readString_headLine: "headLine l \<Longrightarrow> readString (l @ rest) = Some (l, rest)"
  by (auto simp: headLine_split readString_line)

lemma readString_crlf: "readString (CR # LF # rest) = Some (crlf, rest)"
  using readString_line [of "[CR]" rest] by simp

lemma readString_none: "LF \<notin> set s \<Longrightarrow> readString s = None"
  by (simp add: readString_def)

lemma headerLine_fold: "fold headerLine ls r = r\<lparr>Headers := Headers r ++ headersOf ls\<rparr>"
proof (induction ls arbitrary: r)
  case (Cons l ls)
  then show ?case
    by (auto simp: headersOf_def headerLine_def headerField_def List.map_filter_simps map_add_def
        fun_eq_iff split: option.splits)
qed (simp add: headersOf_def)

lemma readRequest_headLines:
  assumes "list_all headLine ls" "1 \<le> n" "n + int (length ls) < 2 ^ 63 - 1"
  shows "readRequest readN n r (concat ls @ s) =
    readRequest readN (n + int (length ls)) (r\<lparr>Headers := Headers r ++ headersOf ls\<rparr>) s"
  unfolding headerLine_fold [symmetric] using assms
proof (induction ls arbitrary: n r)
  case (Cons l ls)
  have "i64 (n + 1) = n + 1" using Cons.prems(2,3) by (simp add: i64_id in_i64_def)
  moreover have "l \<noteq> crlf" using Cons.prems(1) by (simp add: headLine_def)
  ultimately have "readRequest readN n r (concat (l # ls) @ s) =
      readRequest readN (n + 1) (headerLine l r) (concat ls @ s)"
    using Cons.prems readString_headLine [of l "concat ls @ s"] by (subst readRequest.simps) simp
  then show ?case using Cons.IH [of "n + 1"] Cons.prems by (simp add: add.assoc)
qed simp

lemma splitOn_hd: "hd (splitOn c s) = takeWhile (\<lambda>x. x \<noteq> c) s"
  by (induction s) (auto split: list.splits simp: splitOn_nonempty)

lemma requestLine_split:
  "requestLine l emptyRequest = (if CHR '' '' \<in> set l then Some (requestOf [l]) else None)"
proof (cases "CHR '' '' \<in> set l")
  case True
  then obtain m t where l: "l = m @ CHR '' '' # t" "CHR '' '' \<notin> set m" by (meson split_list_first)
  then have "\<And>x. x \<in> set m \<Longrightarrow> x \<noteq> CHR '' ''" by auto
  then have "takeWhile (\<lambda>c. c \<noteq> CHR '' '') l = m" "dropWhile (\<lambda>c. c \<noteq> CHR '' '') l = CHR '' '' # t"
    by (simp_all add: l(1) takeWhile_append2 dropWhile_append2)
  then have r: "requestOf [l] = emptyRequest\<lparr>Method := m, Path := hd (splitOn CHR '' '' t)\<rparr>"
    by (simp add: requestOf_def emptyRequest_def headersOf_def splitOn_hd List.map_filter_simps)
  obtain p ps where "splitOn CHR '' '' t = p # ps" using splitOn_nonempty by (metis neq_Nil_conv)
  then show ?thesis using True r splitOn_first [OF l(2), of t] by (simp add: requestLine_def l(1))
qed (simp add: requestLine_def splitOn_none)

lemma handleConnection_head:
  assumes "list_all headLine head" "int (length head) < 2 ^ 62"
  shows "handleConnection readN (concat head @ s) =
    (if head \<noteq> [] \<and> CHR '' '' \<notin> set (hd head) then Panics ''index out of range''
     else readRequest readN (int (length head)) (requestOf head) s)"
proof (cases head)
  case (Cons l ls)
  have "l \<noteq> crlf" using assms(1) Cons by (simp add: headLine_def)
  then have "handleConnection readN (concat head @ s) =
      (case requestLine l emptyRequest of None \<Rightarrow> Panics ''index out of range''
       | Some r \<Rightarrow> readRequest readN 1 r (concat ls @ s))"
    using assms(1) readString_headLine [of l "concat ls @ s"]
    unfolding handleConnection_def Cons
    by (subst readRequest.simps) (simp add: i64_id in_i64_def split: option.split)
  also have "\<dots> = (if CHR '' '' \<notin> set l then Panics ''index out of range''
      else readRequest readN (1 + int (length ls)) (requestOf (l # ls)) s)"
    using assms Cons readRequest_headLines [of ls 1 readN "requestOf [l]" s]
    by (simp add: requestLine_split requestOf_def headersOf_def List.map_filter_simps)
  finally show ?thesis using Cons by (simp add: add.commute)
qed (simp add: handleConnection_def requestOf_def)

lemma readBody_cases:
  "readBody readN (requestOf head) rest =
     (case declaredLength head of
        None \<Rightarrow> Handled (requestOf head)
      | Some n \<Rightarrow>
          if n < 0 \<or> 2 ^ 48 < n then Panics ''makeslice: len out of range''
          else if 0 < n \<and> rest = [] then LogFatal ''EOF''
          else if bytesRead readN (nat n) rest < nat n
          then LogFatal (''Expected to read '' @ the (Headers (requestOf head) contentLength) @
            '' bytes but read '' @ itoa (int (bytesRead readN (nat n) rest)) @ '' bytes'')
          else Handled ((requestOf head)\<lparr>Body := take (nat n) rest\<rparr>))"
proof (cases "Headers (requestOf head) contentLength")
  case (Some v)
  define n where "n = (case parseInt v of None \<Rightarrow> 0 | Some n \<Rightarrow> n)"
  have "int (bytesRead readN (nat n) rest) = n \<longleftrightarrow> \<not> bytesRead readN (nat n) rest < nat n" if "0 \<le> n"
    using that bytesRead_le(1) [of readN "nat n" rest] by linarith
  moreover have "bytesRead readN (nat n) rest = nat n" if "\<not> bytesRead readN (nat n) rest < nat n"
    using that bytesRead_le(1) [of readN "nat n" rest] by linarith
  ultimately show ?thesis
    using Some by (auto simp: readBody_def declaredLength_def makeFails_def n_def [symmetric] Let_def)
qed (simp add: readBody_def declaredLength_def)

lemma readRequest_blank: "readRequest readN n r (CR # LF # rest) = readBody readN r rest"
  by (subst readRequest.simps) (simp add: readString_crlf)

lemma head_and_rest:
  "\<exists>ls t. list_all headLine ls \<and> (s = concat ls @ crlf @ t \<or> s = concat ls @ t \<and> LF \<notin> set t)"
proof (induction "length s" arbitrary: s rule: less_induct)
  case less
  show ?case
  proof (cases "LF \<in> set s")
    case True
    then obtain b t where s: "s = b @ LF # t" "LF \<notin> set b" by (meson split_list_first)
    show ?thesis
    proof (cases "b = [CR]")
      case True
      then show ?thesis using s by (intro exI [of _ "[]"] exI [of _ t]) simp
    next
      case False
      then have l: "headLine (b @ [LF])" using s(2) by (auto simp: headLine_split append_eq_Cons_conv)
      from less.hyps [of t] s obtain hd rest where
        h: "list_all headLine hd" "t = concat hd @ crlf @ rest \<or> t = concat hd @ rest \<and> LF \<notin> set rest"
        by auto
      then show ?thesis using l s(1) by (intro exI [of _ "(b @ [LF]) # hd"] exI [of _ rest]) auto
    qed
  next
    case False
    then show ?thesis by (intro exI [of _ "[]"] exI [of _ s]) simp
  qed
qed

text \<open>
  C32: What every connection ends with, a handled request or the end of the whole process. Any input
  is a head followed by a blank line and the rest, or a head and an unfinished line. A first line
  without a space panics. With the blank line, a declared length that is negative or above the limit of
  an allocation panics, a body of which the one read does not return the declared length exits through
  \<open>log.Fatal\<close>, and in all other cases the handler gets the method, path and headers of the head and
  the declared number of bytes. Without the blank line the process exits at the end of the input.
  The lines of the head are ASCII and fewer than \<open>2 ^ 62\<close>, and the memory suffices for the body.
\<close>

theorem http_connection_outcome:
  assumes "list_all headLine head" "list_all ascii head" "int (length head) < 2 ^ 62"
  shows "(\<forall>s. \<exists>ls t. list_all headLine ls \<and> (s = concat ls @ crlf @ t \<or> s = concat ls @ t \<and> LF \<notin> set t)) \<and>
   (LF \<notin> set rest \<longrightarrow> handleConnection readN (concat head @ rest) =
     (if head \<noteq> [] \<and> CHR '' '' \<notin> set (hd head) then Panics ''index out of range'' else LogFatal ''EOF'')) \<and>
   handleConnection readN (concat head @ crlf @ rest) =
     (if head \<noteq> [] \<and> CHR '' '' \<notin> set (hd head) then Panics ''index out of range''
      else case declaredLength head of
        None \<Rightarrow> Handled (requestOf head)
      | Some n \<Rightarrow>
          if n < 0 \<or> 2 ^ 48 < n then Panics ''makeslice: len out of range''
          else if 0 < n \<and> rest = [] then LogFatal ''EOF''
          else if bytesRead readN (nat n) rest < nat n
          then LogFatal (''Expected to read '' @ the (Headers (requestOf head) contentLength) @
            '' bytes but read '' @ itoa (int (bytesRead readN (nat n) rest)) @ '' bytes'')
          else Handled ((requestOf head)\<lparr>Body := take (nat n) rest\<rparr>))"
proof (intro conjI impI allI)
  fix s :: string
  show "\<exists>ls t. list_all headLine ls \<and> (s = concat ls @ crlf @ t \<or> s = concat ls @ t \<and> LF \<notin> set t)"
    by (rule head_and_rest)
next
  assume "LF \<notin> set rest"
  then show "handleConnection readN (concat head @ rest) =
     (if head \<noteq> [] \<and> CHR '' '' \<notin> set (hd head) then Panics ''index out of range'' else LogFatal ''EOF'')"
    by (simp add: handleConnection_head [OF assms(1,3)] readRequest.simps readString_none)
next
  show "handleConnection readN (concat head @ crlf @ rest) =
     (if head \<noteq> [] \<and> CHR '' '' \<notin> set (hd head) then Panics ''index out of range''
      else case declaredLength head of
        None \<Rightarrow> Handled (requestOf head)
      | Some n \<Rightarrow>
          if n < 0 \<or> 2 ^ 48 < n then Panics ''makeslice: len out of range''
          else if 0 < n \<and> rest = [] then LogFatal ''EOF''
          else if bytesRead readN (nat n) rest < nat n
          then LogFatal (''Expected to read '' @ the (Headers (requestOf head) contentLength) @
            '' bytes but read '' @ itoa (int (bytesRead readN (nat n) rest)) @ '' bytes'')
          else Handled ((requestOf head)\<lparr>Body := take (nat n) rest\<rparr>))"
    by (simp only: handleConnection_head [OF assms(1,3)] append_Cons append_Nil readRequest_blank readBody_cases)
qed

theorem http_connection_outcome_witness:
  "handleConnection fullRead (''POST /json HTTP/1.1'' @ crlf @ ''content-length: 5'' @ crlf @ crlf @ ''hello!'') =
     Handled ((requestOf [''POST /json HTTP/1.1'' @ crlf, ''content-length: 5'' @ crlf])\<lparr>Body := ''hello''\<rparr>) \<and>
   handleConnection (\<lambda>n s. 3) (''POST /json HTTP/1.1'' @ crlf @ ''content-length: 5'' @ crlf @ crlf @ ''hello!'') =
     LogFatal ''Expected to read 5 bytes but read 3 bytes''"
proof -
  let ?head = "[''POST /json HTTP/1.1'' @ crlf, ''content-length: 5'' @ crlf]"
  have h: "list_all headLine ?head" "list_all ascii ?head" by code_simp+
  have v: "declaredLength ?head = Some 5" "Headers (requestOf ?head) contentLength = Some ''5''" by code_simp+
  have "itoa 3 = ''3''" by code_simp
  then show ?thesis
    using http_connection_outcome [OF h, of "''hello!''" fullRead, THEN conjunct2, THEN conjunct2]
      http_connection_outcome [OF h, of "''hello!''" "\<lambda>n s. 3", THEN conjunct2, THEN conjunct2]
    unfolding v by (simp add: bytesRead_def fullRead_def)
qed

text \<open>One bad connection ends the whole process, in each of the ways.\<close>

lemma http_bad_input_examples:
  "handleConnection readN (''GET'' @ crlf @ crlf) = Panics ''index out of range'' \<and>
   handleConnection readN (''GET / HTTP/1.1'' @ crlf @ ''Content-Length: -1'' @ crlf @ crlf) =
     Panics ''makeslice: len out of range'' \<and>
   handleConnection readN ''GET / HTTP/1.1'' = LogFatal ''EOF'' \<and>
   handleConnection (\<lambda>n s. min n 3) (''POST / HTTP/1.1'' @ crlf @ ''Content-Length: 5'' @ crlf @ crlf @ ''hello'') =
     LogFatal ''Expected to read 5 bytes but read 3 bytes''"
  unfolding endText_iff by (intro conjI) code_simp+

end
