(* ===== verification/Job_Queue.thy ===== *)
theory Job_Queue
  imports Prelude
begin

text \<open>
  The job queue of \<open>src/cmd/jobqueue/main.go\<close> as a state machine: request handlers and one
  worker that communicate over the buffered channel \<open>jobsCh\<close> and one buffered reply channel per
  job. Handlers are numbered in the order they are started; the number of a handler names its
  reply channel. A step is one operation on a channel or one choice of a \<open>select\<close>, so all
  interleavings of the goroutines are runs of the machine; the identifiers made by the uuid
  package are arguments of the steps.
\<close>

section \<open>State\<close>

record Job =
  jID :: string
  jPayload :: string
  jReplyCh :: nat

record Result =
  rID :: string
  rOutput :: string
  rErr :: "string option"

datatype reply = Encoded string string | HttpError string int

text \<open>Where a handler is: at the send, at the \<open>select\<close>, or returned.\<close>

datatype handler = Sending Job | Selecting Job | Answered Job reply | Rejected reply

record queue =
  jobsCh :: "Job list"
  replyChs :: "nat \<Rightarrow> Result list"
  handlers :: "nat \<rightharpoonup> handler"
  worker :: "Job option"

definition startQueue :: queue where
  "startQueue = \<lparr>jobsCh = [], replyChs = (\<lambda>_. []), handlers = Map.empty, worker = None\<rparr>"

definition jobsCap :: nat where
  "jobsCap = 100"

definition process :: "Job \<Rightarrow> Result" where
  "process j = \<lparr>rID = jID j, rOutput = ''processed: '' @ jPayload j, rErr = None\<rparr>"

text \<open>What the handler answers for a result.\<close>

definition respond :: "Result \<Rightarrow> reply" where
  "respond res = (case rErr res of Some err \<Rightarrow> HttpError err 500 | None \<Rightarrow> Encoded (rID res) (rOutput res))"

lemma respond_process [simp]: "respond (process j) = Encoded (jID j) (''processed: '' @ jPayload j)"
  by (simp add: respond_def process_def)

section \<open>Steps\<close>

text \<open>
  \<open>Arrive r u body\<close>: a request arrives, with the decoded body; \<open>Send r\<close>: the handler's send
  succeeds, which needs room in the buffer; \<open>Receive r\<close> and \<open>Timeout r\<close>: the two cases of the
  \<open>select\<close>; \<open>Take\<close>: the worker receives the next job; \<open>Reply\<close>: the worker wakes up and sends the
  result, which needs room in the reply channel. A step that is not enabled is \<open>None\<close>.
\<close>

datatype jqAction =
    Arrive nat string "string option"
  | Send nat
  | Receive nat
  | Timeout nat
  | Take
  | Reply

fun jqStep :: "jqAction \<Rightarrow> queue \<Rightarrow> queue option" where
  "jqStep (Arrive r uid reqBody) q =
     (if handlers q r \<noteq> None then None
      else case reqBody of
        None \<Rightarrow> Some (q\<lparr>handlers := (handlers q)(r \<mapsto> Rejected (HttpError ''bad request'' 400))\<rparr>)
      | Some data \<Rightarrow>
          Some (q\<lparr>handlers := (handlers q)(r \<mapsto> Sending \<lparr>jID = uid, jPayload = data, jReplyCh = r\<rparr>)\<rparr>))"
| "jqStep (Send r) q =
     (case handlers q r of
        Some (Sending job) \<Rightarrow>
          if length (jobsCh q) < jobsCap
          then Some (q\<lparr>jobsCh := jobsCh q @ [job], handlers := (handlers q)(r \<mapsto> Selecting job)\<rparr>)
          else None
      | _ \<Rightarrow> None)"
| "jqStep (Receive r) q =
     (case handlers q r of
        Some (Selecting job) \<Rightarrow>
          (case replyChs q (jReplyCh job) of
             [] \<Rightarrow> None
           | res # rest \<Rightarrow>
               Some (q\<lparr>replyChs := (replyChs q)(jReplyCh job := rest),
                       handlers := (handlers q)(r \<mapsto> Answered job (respond res))\<rparr>))
      | _ \<Rightarrow> None)"
| "jqStep (Timeout r) q =
     (case handlers q r of
        Some (Selecting job) \<Rightarrow>
          Some (q\<lparr>handlers := (handlers q)(r \<mapsto> Answered job (HttpError ''timeout'' 504))\<rparr>)
      | _ \<Rightarrow> None)"
| "jqStep Take q =
     (case (worker q, jobsCh q) of
        (None, job # rest) \<Rightarrow> Some (q\<lparr>jobsCh := rest, worker := Some job\<rparr>)
      | _ \<Rightarrow> None)"
| "jqStep Reply q =
     (case worker q of
        None \<Rightarrow> None
      | Some job \<Rightarrow>
          if length (replyChs q (jReplyCh job)) < 1
          then Some (q\<lparr>replyChs := (replyChs q)(jReplyCh job := replyChs q (jReplyCh job) @ [process job]),
                       worker := None\<rparr>)
          else None)"

inductive jqReach :: "queue \<Rightarrow> bool" where
  jq_start: "jqReach startQueue"
| jq_step: "jqReach q \<Longrightarrow> jqStep a q = Some q' \<Longrightarrow> jqReach q'"

fun jqRun :: "jqAction list \<Rightarrow> queue \<Rightarrow> queue option" where
  "jqRun [] q = Some q"
| "jqRun (a # as) q = (case jqStep a q of None \<Rightarrow> None | Some q' \<Rightarrow> jqRun as q')"

lemma jqRun_reach: "jqRun as q = Some q' \<Longrightarrow> jqReach q \<Longrightarrow> jqReach q'"
  by (induction as arbitrary: q) (auto split: option.splits intro: jq_step)

section \<open>Invariant\<close>

text \<open>The jobs on their way to a reply.\<close>

definition pending :: "queue \<Rightarrow> Job list" where
  "pending q = (case worker q of None \<Rightarrow> [] | Some j \<Rightarrow> [j]) @ jobsCh q"

text \<open>The job a handler has sent.\<close>

fun sentBy :: "handler option \<Rightarrow> Job option" where
  "sentBy (Some (Selecting j)) = Some j"
| "sentBy (Some (Answered j _)) = Some j"
| "sentBy _ = None"

fun ownReply :: "handler \<Rightarrow> bool" where
  "ownReply (Answered j (Encoded i out)) \<longleftrightarrow> i = jID j \<and> out = ''processed: '' @ jPayload j"
| "ownReply _ \<longleftrightarrow> True"

definition jqInv :: "queue \<Rightarrow> bool" where
  "jqInv q \<longleftrightarrow>
     distinct (map jReplyCh (pending q)) \<and>
     (\<forall>j \<in> set (pending q). sentBy (handlers q (jReplyCh j)) = Some j \<and> replyChs q (jReplyCh j) = []) \<and>
     (\<forall>r h. handlers q r = Some h \<longrightarrow> ownReply h) \<and>
     (\<forall>r j. sentBy (handlers q r) = Some j \<or> handlers q r = Some (Sending j) \<longrightarrow> jReplyCh j = r) \<and>
     (\<forall>r. replyChs q r = [] \<or> (\<exists>j. sentBy (handlers q r) = Some j \<and> replyChs q r = [process j]))"

lemma jqInvI:
  assumes "distinct (map jReplyCh (pending q))"
    and "\<And>j. j \<in> set (pending q) \<Longrightarrow> sentBy (handlers q (jReplyCh j)) = Some j \<and> replyChs q (jReplyCh j) = []"
    and "\<And>r h. handlers q r = Some h \<Longrightarrow> ownReply h"
    and "\<And>r j. sentBy (handlers q r) = Some j \<or> handlers q r = Some (Sending j) \<Longrightarrow> jReplyCh j = r"
    and "\<And>r. replyChs q r = [] \<or> (\<exists>j. sentBy (handlers q r) = Some j \<and> replyChs q r = [process j])"
  shows "jqInv q"
  unfolding jqInv_def using assms by blast

lemma jqInvD:
  assumes "jqInv q"
  shows "distinct (map jReplyCh (pending q))"
    and "j \<in> set (pending q) \<Longrightarrow> sentBy (handlers q (jReplyCh j)) = Some j"
    and "j \<in> set (pending q) \<Longrightarrow> replyChs q (jReplyCh j) = []"
    and "handlers q r = Some h \<Longrightarrow> ownReply h"
    and "sentBy (handlers q r) = Some j \<Longrightarrow> jReplyCh j = r"
    and "handlers q r = Some (Sending j) \<Longrightarrow> jReplyCh j = r"
    and "replyChs q r = [] \<or> (\<exists>j. sentBy (handlers q r) = Some j \<and> replyChs q r = [process j])"
  using assms unfolding jqInv_def by blast+

lemma jqInv_start: "jqInv startQueue"
  by (simp add: jqInv_def startQueue_def pending_def)

lemma jqInv_unsent:
  assumes "jqInv q" "sentBy (handlers q r) = None"
  shows "replyChs q r = []" "j \<in> set (pending q) \<Longrightarrow> jReplyCh j \<noteq> r"
  using jqInvD(7) [OF assms(1), of r] jqInvD(2) [OF assms(1), of j] assms(2) by auto

lemma pending_simps [simp]:
  "pending (q\<lparr>handlers := h\<rparr>) = pending q"
  "pending (q\<lparr>replyChs := c\<rparr>) = pending q"
  "pending (q\<lparr>jobsCh := jobsCh q @ [j]\<rparr>) = pending q @ [j]"
  "worker q = None \<Longrightarrow> jobsCh q = j # js \<Longrightarrow> pending (q\<lparr>jobsCh := js, worker := Some j\<rparr>) = pending q"
  by (simp_all add: pending_def)

lemma pending_reply:
  "worker q = Some j \<Longrightarrow> pending q = j # pending (q\<lparr>replyChs := c, worker := None\<rparr>)"
  by (simp add: pending_def)

text \<open>A handler moves on without touching the channels.\<close>

lemma jqInv_handler:
  assumes "jqInv q" "ownReply h" "sentBy (Some h) = sentBy (handlers q r)"
    and "\<And>j. h = Sending j \<Longrightarrow> jReplyCh j = r"
  shows "jqInv (q\<lparr>handlers := (handlers q)(r \<mapsto> h)\<rparr>)"
proof -
  let ?q = "q\<lparr>handlers := (handlers q)(r \<mapsto> h)\<rparr>"
  have same: "sentBy (handlers ?q x) = sentBy (handlers q x)" for x using assms(3) by simp
  show ?thesis
  proof (rule jqInvI, goal_cases)
    case 1 then show ?case using jqInvD(1) [OF assms(1)] by simp
  next
    case (2 j) then show ?case unfolding same using jqInvD(2,3) [OF assms(1), of j] by simp
  next
    case (3 x k) then show ?case using assms(2) jqInvD(4) [OF assms(1), of x] by (auto split: if_splits)
  next
    case (4 x j) then show ?case unfolding same
      using assms(4) jqInvD(5,6) [OF assms(1), of x j] by (auto split: if_splits)
  next
    case (5 x) then show ?case unfolding same using jqInvD(7) [OF assms(1), of x] by simp
  qed
qed

lemma jqInv_take:
  "jqInv q \<Longrightarrow> worker q = None \<Longrightarrow> jobsCh q = j # js \<Longrightarrow> jqInv (q\<lparr>jobsCh := js, worker := Some j\<rparr>)"
  unfolding jqInv_def by simp

lemma jqInv_send:
  assumes "jqInv q" "handlers q r = Some (Sending job)"
  shows "jqInv (q\<lparr>jobsCh := jobsCh q @ [job], handlers := (handlers q)(r \<mapsto> Selecting job)\<rparr>)"
proof -
  let ?q = "q\<lparr>jobsCh := jobsCh q @ [job], handlers := (handlers q)(r \<mapsto> Selecting job)\<rparr>"
  have r: "jReplyCh job = r" by (rule jqInvD(6) [OF assms])
  have u: "replyChs q r = []" "j \<in> set (pending q) \<Longrightarrow> jReplyCh j \<noteq> r" for j
    using jqInv_unsent [OF assms(1), of r] assms(2) by simp_all
  have p: "pending ?q = pending q @ [job]" by (simp add: pending_def)
  show ?thesis
  proof (rule jqInvI, goal_cases)
    case 1 show ?case unfolding p using jqInvD(1) [OF assms(1)] u(2) r by force
  next
    case (2 j) then show ?case unfolding p using u r jqInvD(2,3) [OF assms(1), of j] by auto
  next
    case (3 x k) then show ?case using jqInvD(4) [OF assms(1), of x] by (auto split: if_splits)
  next
    case (4 x j) then show ?case using r jqInvD(5,6) [OF assms(1), of x j] by (auto split: if_splits)
  next
    case (5 x) then show ?case using u(1) jqInvD(7) [OF assms(1), of x] by simp
  qed
qed

lemma jqInv_receive:
  assumes "jqInv q" "handlers q r = Some (Selecting job)" "replyChs q (jReplyCh job) = res # rest"
  shows "jqInv (q\<lparr>replyChs := (replyChs q)(jReplyCh job := rest),
    handlers := (handlers q)(r \<mapsto> Answered job (respond res))\<rparr>)"
proof -
  have r: "jReplyCh job = r" using jqInvD(5) [OF assms(1), of r job] assms(2) by simp
  have res: "res = process job" "rest = []"
    using jqInvD(7) [OF assms(1), of r] assms(2,3) r by auto
  let ?q = "q\<lparr>replyChs := (replyChs q)(jReplyCh job := rest)\<rparr>"
  have "jqInv ?q"
  proof (rule jqInvI, goal_cases)
    case 1 then show ?case using jqInvD(1) [OF assms(1)] by simp
  next
    case (2 j) then show ?case using jqInvD(2,3) [OF assms(1), of j] res by simp
  next
    case (3 x k) then show ?case using jqInvD(4) [OF assms(1), of x] by simp
  next
    case (4 x j) then show ?case using jqInvD(5,6) [OF assms(1), of x j] by auto
  next
    case (5 x) then show ?case using jqInvD(7) [OF assms(1), of x] res by simp
  qed
  from jqInv_handler [OF this, of "Answered job (respond res)" r] assms(2)
  show ?thesis by (simp add: res(1))
qed

lemma jqInv_reply:
  assumes "jqInv q" "worker q = Some job" "replyChs q (jReplyCh job) = []"
  shows "jqInv (q\<lparr>replyChs := (replyChs q)(jReplyCh job := [process job]), worker := None\<rparr>)"
proof -
  let ?q = "q\<lparr>replyChs := (replyChs q)(jReplyCh job := [process job]), worker := None\<rparr>"
  have p: "pending q = job # pending ?q" by (rule pending_reply [OF assms(2)])
  then have s: "sentBy (handlers q (jReplyCh job)) = Some job" using jqInvD(2) [OF assms(1), of job] by simp
  show ?thesis
  proof (rule jqInvI, goal_cases)
    case 1 then show ?case using jqInvD(1) [OF assms(1)] p by simp
  next
    case (2 j)
    have "distinct (map jReplyCh (job # pending ?q))" using jqInvD(1) [OF assms(1)] p by metis
    moreover have "jReplyCh j \<in> jReplyCh ` set (pending ?q)" using 2 by (rule imageI)
    ultimately have "jReplyCh j \<noteq> jReplyCh job" by auto
    moreover have "j \<in> set (pending q)" using 2 p by simp
    ultimately show ?case using jqInvD(2,3) [OF assms(1), of j] by simp
  next
    case (3 x k) then show ?case using jqInvD(4) [OF assms(1), of x] by simp
  next
    case (4 x j) then show ?case using jqInvD(5,6) [OF assms(1), of x j] by auto
  next
    case (5 x) then show ?case using jqInvD(7) [OF assms(1), of x] s by simp
  qed
qed

lemma jqInv_step:
  assumes "jqInv q" "jqStep a q = Some q'"
  shows "jqInv q'"
proof (cases a)
  case (Arrive r uid b)
  with assms show ?thesis by (auto intro!: jqInv_handler split: if_splits option.splits)
next
  case (Send r)
  with assms show ?thesis
    using jqInv_send by (auto split: option.splits handler.splits if_splits)
next
  case (Receive r)
  with assms show ?thesis
    using jqInv_receive by (auto split: option.splits handler.splits list.splits)
next
  case (Timeout r)
  with assms show ?thesis by (auto intro!: jqInv_handler split: option.splits handler.splits)
next
  case Take
  with assms show ?thesis using jqInv_take by (auto split: option.splits list.splits)
next
  case Reply
  with assms show ?thesis using jqInv_reply by (auto split: option.splits if_splits)
qed

lemma jqReach_inv: "jqReach q \<Longrightarrow> jqInv q"
  by (induction rule: jqReach.induct) (auto intro: jqInv_start jqInv_step)

section \<open>Every job sent is on its way\<close>

definition jqWait :: "queue \<Rightarrow> bool" where
  "jqWait q \<longleftrightarrow> (\<forall>r j. handlers q r = Some (Selecting j) \<longrightarrow> j \<in> set (pending q) \<or> replyChs q r = [process j])"

lemma jqWait_start: "jqWait startQueue"
  by (simp add: jqWait_def startQueue_def)

lemma pending_worker: "worker q = Some j \<Longrightarrow> pending q = j # jobsCh q" "worker q = None \<Longrightarrow> pending q = jobsCh q"
  by (simp_all add: pending_def)

lemma jqWait_handler:
  "jqWait q \<Longrightarrow> (\<And>j. h \<noteq> Selecting j) \<Longrightarrow> jqWait (q\<lparr>handlers := (handlers q)(r \<mapsto> h)\<rparr>)"
  unfolding jqWait_def by (simp split: if_splits)

lemma jqWait_step:
  assumes "jqInv q" "jqWait q" "jqStep a q = Some q'"
  shows "jqWait q'"
proof (cases a)
  case (Arrive r uid b)
  with assms show ?thesis by (auto intro!: jqWait_handler split: if_splits option.splits)
next
  case (Send r)
  then obtain job where h: "handlers q r = Some (Sending job)"
    "q' = q\<lparr>jobsCh := jobsCh q @ [job], handlers := (handlers q)(r \<mapsto> Selecting job)\<rparr>"
    using assms(3) by (auto split: option.splits handler.splits if_splits)
  have "pending q' = pending q @ [job]" by (simp add: h(2) pending_def)
  with assms(2) h show ?thesis by (auto simp: jqWait_def)
next
  case (Receive r)
  then obtain job res rest where h: "handlers q r = Some (Selecting job)"
    "replyChs q (jReplyCh job) = res # rest" "q' = q\<lparr>replyChs := (replyChs q)(jReplyCh job := rest),
            handlers := (handlers q)(r \<mapsto> Answered job (respond res))\<rparr>"
    using assms(3) by (auto split: option.splits handler.splits list.splits)
  moreover have "jReplyCh job = r" using jqInvD(5) [OF assms(1), of r job] h(1) by simp
  ultimately show ?thesis using assms(2) by (auto simp: jqWait_def)
next
  case (Timeout r)
  with assms show ?thesis by (auto intro!: jqWait_handler split: option.splits handler.splits)
next
  case Take
  then obtain j js where h: "worker q = None" "jobsCh q = j # js" "q' = q\<lparr>jobsCh := js, worker := Some j\<rparr>"
    using assms(3) by (auto split: option.splits list.splits)
  then have "pending q' = pending q" by simp
  with assms(2) h(3) show ?thesis by (simp add: jqWait_def)
next
  case Reply
  then obtain job where h: "worker q = Some job" "replyChs q (jReplyCh job) = []"
    "q' = q\<lparr>replyChs := (replyChs q)(jReplyCh job := [process job]), worker := None\<rparr>"
    using assms(3) by (auto split: option.splits if_splits)
  have p: "pending q = job # pending q'" using h by (simp add: pending_def)
  have "j \<in> set (pending q') \<or> replyChs q' r = [process j]" if sel: "handlers q r = Some (Selecting j)" for r j
  proof -
    have r: "jReplyCh j = r" using jqInvD(5) [OF assms(1), of r j] sel by simp
    have "j \<in> set (pending q) \<or> replyChs q r = [process j]" using assms(2) sel by (simp add: jqWait_def)
    then show ?thesis using p h r by auto
  qed
  then show ?thesis using h(3) by (simp add: jqWait_def)
qed

lemma jqReach_wait: "jqReach q \<Longrightarrow> jqWait q"
  by (induction rule: jqReach.induct) (auto intro: jqWait_start jqWait_step dest: jqReach_inv)

lemma worker_sends:
  assumes "jqReach q" "worker q = Some j"
  shows "jqStep Reply q = Some (q\<lparr>replyChs := (replyChs q)(jReplyCh j := [process j]), worker := None\<rparr>)"
proof -
  have "replyChs q (jReplyCh j) = []"
    using jqInvD(3) [OF jqReach_inv [OF assms(1)], of j] assms(2) by (simp add: pending_worker)
  then show ?thesis using assms(2) by simp
qed

lemma jqRun_append: "jqRun (as @ bs) q = (case jqRun as q of None \<Rightarrow> None | Some q' \<Rightarrow> jqRun bs q')"
  by (induction as arbitrary: q) (auto split: option.splits)

text \<open>Left alone, the worker empties the queue in two steps per job.\<close>

lemma worker_drains:
  assumes "jqReach q" "worker q = None"
  shows "\<exists>q'. jqRun (concat (replicate (length (jobsCh q)) [Take, Reply])) q = Some q' \<and>
    pending q' = [] \<and> handlers q' = handlers q"
  using assms
proof (induction "jobsCh q" arbitrary: q)
  case Nil
  then show ?case by (simp add: pending_def)
next
  case (Cons j js)
  let ?q1 = "q\<lparr>jobsCh := js, worker := Some j\<rparr>"
  have t: "jqStep Take q = Some ?q1" using Cons.hyps(2) Cons.prems(2) by (simp flip: Cons.hyps(2))
  have r1: "jqReach ?q1" using Cons.prems(1) t by (rule jq_step)
  obtain q2 where s: "jqStep Reply ?q1 = Some q2" "jobsCh q2 = js" "worker q2 = None" "handlers q2 = handlers q"
    using worker_sends [OF r1] by simp
  have r2: "jqReach q2" using r1 s(1) by (rule jq_step)
  obtain q' where "jqRun (concat (replicate (length (jobsCh q2)) [Take, Reply])) q2 = Some q'"
    "pending q' = []" "handlers q' = handlers q2"
    using Cons.hyps(1) [of q2] s r2 by auto
  with t s show ?case by (intro exI [of _ q']) (simp flip: Cons.hyps(2))
qed

section \<open>Properties\<close>

text \<open>
  C15: Every answered request gets the result of its own job: in every interleaving of handlers and
  worker, a handler that answered with a result encoded the identifier of the job it made and
  the output computed from its own payload.
\<close>

theorem job_gets_own_result:
  assumes "jqReach q" "handlers q r = Some (Answered job (Encoded i out))"
  shows "jReplyCh job = r \<and> i = jID job \<and> out = ''processed: '' @ jPayload job"
  using jqInvD(4) [OF jqReach_inv [OF assms(1)] assms(2)] jqInvD(5) [OF jqReach_inv [OF assms(1)], of r job] assms(2)
  by simp

definition demoJobs :: "jqAction list" where
  "demoJobs = [Arrive 0 ''u0'' (Some ''a''), Arrive 1 ''u1'' (Some ''b''), Send 1, Take, Send 0, Timeout 1, Reply,
     Take, Reply, Receive 0]"

definition demoQueue :: queue where
  "demoQueue = the (jqRun demoJobs startQueue)"

lemma demoQueue_reach: "jqReach demoQueue"
proof -
  have "jqRun demoJobs startQueue \<noteq> None" by (simp add: demoJobs_def startQueue_def jobsCap_def)
  then have "jqRun demoJobs startQueue = Some demoQueue" by (simp add: demoQueue_def)
  then show ?thesis using jqRun_reach jq_start by blast
qed

theorem job_gets_own_result_witness:
  "handlers demoQueue 0 = Some (Answered \<lparr>jID = ''u0'', jPayload = ''a'', jReplyCh = 0\<rparr> (Encoded ''u0'' ''processed: a'')) \<and>
   ''processed: a'' = ''processed: '' @ ''a''"
proof -
  have h: "handlers demoQueue 0 =
      Some (Answered \<lparr>jID = ''u0'', jPayload = ''a'', jReplyCh = 0\<rparr> (Encoded ''u0'' ''processed: a''))"
    by (simp add: demoQueue_def demoJobs_def startQueue_def jobsCap_def)
  from job_gets_own_result [OF demoQueue_reach h] h show ?thesis by simp
qed

text \<open>
  C17: The worker is never stuck and no job is lost: from every reachable state the worker's next
  send has room, although the handler may have timed out, and left alone the worker answers all
  pending jobs in at most two steps each, after which every handler still waiting finds its
  result in its channel.
\<close>

theorem worker_answers_all:
  assumes "jqReach q"
  shows "\<exists>as q'. set as \<subseteq> {Take, Reply} \<and> length as \<le> 2 * length (jobsCh q) + 1 \<and> jqRun as q = Some q' \<and>
    handlers q' = handlers q \<and>
    (\<forall>r job. handlers q r = Some (Selecting job) \<longrightarrow> replyChs q' r = [process job])"
proof -
  let ?first = "if worker q = None then [] else [Reply]"
  obtain q1 where q1: "jqRun ?first q = Some q1" "worker q1 = None" "jobsCh q1 = jobsCh q" "handlers q1 = handlers q"
    using worker_sends [OF assms] by (cases "worker q") auto
  have r1: "jqReach q1" using jqRun_reach [OF q1(1) assms] .
  let ?as = "concat (replicate (length (jobsCh q1)) [Take, Reply])"
  obtain q' where q': "jqRun ?as q1 = Some q'" "pending q' = []" "handlers q' = handlers q1"
    using worker_drains [OF r1 q1(2)] by blast
  have "jqReach q'" using jqRun_reach [OF q'(1) r1] .
  then have "jqWait q'" by (rule jqReach_wait)
  then have "\<forall>r job. handlers q r = Some (Selecting job) \<longrightarrow> replyChs q' r = [process job]"
    using q'(2,3) q1(4) by (simp add: jqWait_def)
  moreover have "jqRun (?first @ ?as) q = Some q'" using q1(1) q'(1) by (simp add: jqRun_append)
  moreover have "set (?first @ ?as) \<subseteq> {Take, Reply}" "length (?first @ ?as) \<le> 2 * length (jobsCh q) + 1"
    using q1(3) by (auto simp: length_concat sum_list_replicate)
  ultimately show ?thesis using q'(3) q1(4) by (intro exI [of _ "?first @ ?as"] exI [of _ q']) simp
qed

theorem worker_answers_all_witness:
  "\<exists>as q'. set as \<subseteq> {Take, Reply} \<and> jqRun as (the (jqRun (take 3 demoJobs) startQueue)) = Some q' \<and>
     replyChs q' 1 = [\<lparr>rID = ''u1'', rOutput = ''processed: b'', rErr = None\<rparr>]"
proof -
  let ?q = "the (jqRun (take 3 demoJobs) startQueue)"
  have r: "jqRun (take 3 demoJobs) startQueue = Some ?q"
    by (simp add: demoJobs_def startQueue_def jobsCap_def)
  have "handlers ?q 1 = Some (Selecting \<lparr>jID = ''u1'', jPayload = ''b'', jReplyCh = 1\<rparr>)"
    by (simp add: demoJobs_def startQueue_def jobsCap_def)
  with worker_answers_all [OF jqRun_reach [OF r jq_start]] show ?thesis by (fastforce simp: process_def)
qed

end
