(* ===== verification/Node_Talk.thy ===== *)
theory Node_Talk
  imports Strconv
begin

text \<open>
  The two talking nodes of \<open>src/cmd/nodetalk/main.go\<close> as a state machine of three goroutines:
  the main one in \<open>StartConversation\<close>, and \<open>Run\<close> of each node. They meet on the unbuffered
  inboxes and answer over reply channels that are allocated with \<open>make\<close>; the list \<open>chans\<close> is the
  heap of these channels. A step is one channel operation or one print, so the runs of the machine
  are all interleavings of the goroutines.
\<close>

section \<open>State\<close>

record Request =
  reqFrom :: int
  reqData :: string
  replyCh :: nat

record Response =
  resFrom :: int
  resData :: string

text \<open>A reply channel: its buffer of capacity 1, and whether it is closed.\<close>

record channel =
  buffer :: "Response list"
  isClosed :: bool

text \<open>Where \<open>Run\<close> is: at the receive, after it, after the print, after the reply, or returned.\<close>

datatype runPc = Waiting | Printing Request | Replying Request | Closing Request | Returned

text \<open>A node with the position of its \<open>Run\<close>; the peer is the position of the node behind \<open>DirectPeer\<close>.\<close>

record talkNode =
  talkID :: int
  inboxClosed :: bool
  peer :: nat
  runAt :: runPc

text \<open>Where the main goroutine is.\<close>

datatype mainPc =
    Begin | SendHello nat | AwaitHey nat | GotHey Response
  | SendHow nat | AwaitFine nat | GotFine Response | Finishing
  | CloseFirst | CloseSecond | Exited | Panicked string

datatype line = Started | RequestFrom int int string | ResponseFrom int int string | Finished

record talk =
  nodes2 :: "talkNode list"
  chans :: "channel list"
  mainAt :: mainPc
  printed :: "line list"

definition showLine :: "line \<Rightarrow> string" where
  "showLine l = (case l of
     Started \<Rightarrow> ''Conversation started''
   | RequestFrom n f d \<Rightarrow> ''[node '' @ itoa n @ ''] request from from node '' @ itoa f @ '': '' @ d
   | ResponseFrom n f d \<Rightarrow> ''[node '' @ itoa n @ ''] response from node '' @ itoa f @ '': '' @ d
   | Finished \<Rightarrow> ''Conversation finished'')"

definition startTalk :: talk where
  "startTalk = \<lparr>nodes2 = [\<lparr>talkID = 1, inboxClosed = False, peer = 1, runAt = Waiting\<rparr>,
                         \<lparr>talkID = 2, inboxClosed = False, peer = 0, runAt = Waiting\<rparr>],
               chans = [], mainAt = Begin, printed = []\<rparr>"

section \<open>Steps\<close>

definition print :: "line \<Rightarrow> talk \<Rightarrow> talk" where
  "print l t = t\<lparr>printed := printed t @ [l]\<rparr>"

definition panicTalk :: "string \<Rightarrow> talk \<Rightarrow> talk" where
  "panicTalk msg t = t\<lparr>mainAt := Panicked msg\<rparr>"

text \<open>\<open>make(chan Response, 1)\<close>: the new channel is the last one.\<close>

definition makeCh :: "(nat \<Rightarrow> mainPc) \<Rightarrow> talk \<Rightarrow> talk" where
  "makeCh pc t = t\<lparr>chans := chans t @ [\<lparr>buffer = [], isClosed = False\<rparr>], mainAt := pc (length (chans t))\<rparr>"

text \<open>A receive from a reply channel: the buffered value, the zero value when closed, or it blocks.\<close>

definition receiveCh :: "nat \<Rightarrow> talk \<Rightarrow> (Response \<times> talk) option" where
  "receiveCh c t =
     (case buffer (chans t ! c) of
        r # rest \<Rightarrow> Some (r, t\<lparr>chans := (chans t)[c := (chans t ! c)\<lparr>buffer := rest\<rparr>]\<rparr>)
      | [] \<Rightarrow> if isClosed (chans t ! c) then Some (\<lparr>resFrom = 0, resData = ''''\<rparr>, t) else None)"

definition sendCh :: "nat \<Rightarrow> Response \<Rightarrow> talk \<Rightarrow> talk option" where
  "sendCh c r t =
     (if isClosed (chans t ! c) then Some (panicTalk ''send on closed channel'' t)
      else if length (buffer (chans t ! c)) < 1
      then Some (t\<lparr>chans := (chans t)[c := (chans t ! c)\<lparr>buffer := buffer (chans t ! c) @ [r]\<rparr>]\<rparr>)
      else None)"

definition closeCh :: "nat \<Rightarrow> talk \<Rightarrow> talk" where
  "closeCh c t =
     (if isClosed (chans t ! c) then panicTalk ''close of closed channel'' t
      else t\<lparr>chans := (chans t)[c := (chans t ! c)\<lparr>isClosed := True\<rparr>]\<rparr>)"

text \<open>\<open>DirectPeer.Send\<close> from node 1: it hands the request over when the peer's \<open>Run\<close> is waiting.\<close>

definition Send :: "Request \<Rightarrow> mainPc \<Rightarrow> talk \<Rightarrow> talk option" where
  "Send req pc t =
     (let p = peer (nodes2 t ! 0); n = nodes2 t ! p
      in if inboxClosed n then Some (panicTalk ''send on closed channel'' t)
         else if runAt n = Waiting
         then Some (t\<lparr>nodes2 := (nodes2 t)[p := n\<lparr>runAt := Printing req\<rparr>], mainAt := pc\<rparr>)
         else None)"

text \<open>\<open>close\<close> of the inbox of a node.\<close>

definition closeInbox :: "nat \<Rightarrow> mainPc \<Rightarrow> talk \<Rightarrow> talk" where
  "closeInbox i pc t =
     (if inboxClosed (nodes2 t ! i) then panicTalk ''close of closed channel'' t
      else t\<lparr>nodes2 := (nodes2 t)[i := (nodes2 t ! i)\<lparr>inboxClosed := True\<rparr>], mainAt := pc\<rparr>)"

text \<open>The next step of the main goroutine: \<open>StartConversation\<close> of node 1, then the two closes.\<close>

definition StartConversation :: "talk \<Rightarrow> talk option" where
  "StartConversation t =
     (let me = talkID (nodes2 t ! 0)
      in case mainAt t of
        Begin \<Rightarrow> Some (makeCh SendHello (print Started t))
      | SendHello c \<Rightarrow> Send \<lparr>reqFrom = me, reqData = ''Hello'', replyCh = c\<rparr> (AwaitHey c) t
      | AwaitHey c \<Rightarrow> map_option (\<lambda>(r, t'). t'\<lparr>mainAt := GotHey r\<rparr>) (receiveCh c t)
      | GotHey r \<Rightarrow>
          (let t' = print (ResponseFrom me (resFrom r) (resData r)) t
           in if resData r \<noteq> ''Hey'' then Some (panicTalk (''unexpected response: '' @ resData r) t')
              else Some (makeCh SendHow t'))
      | SendHow c \<Rightarrow> Send \<lparr>reqFrom = me, reqData = ''How are you'', replyCh = c\<rparr> (AwaitFine c) t
      | AwaitFine c \<Rightarrow> map_option (\<lambda>(r, t'). t'\<lparr>mainAt := GotFine r\<rparr>) (receiveCh c t)
      | GotFine r \<Rightarrow>
          (let t' = print (ResponseFrom me (resFrom r) (resData r)) t
           in if resData r \<noteq> ''I'' @ [CHR 0x27] @ ''m fine, thank you''
              then Some (panicTalk (''unexpected response: '' @ resData r) t')
              else Some (t'\<lparr>mainAt := Finishing\<rparr>))
      | Finishing \<Rightarrow> Some ((print Finished t)\<lparr>mainAt := CloseFirst\<rparr>)
      | CloseFirst \<Rightarrow> Some (closeInbox 0 CloseSecond t)
      | CloseSecond \<Rightarrow> Some (closeInbox 1 Exited t)
      | Exited \<Rightarrow> None
      | Panicked msg \<Rightarrow> None)"

text \<open>The answer of \<open>Run\<close> to a request.\<close>

definition answer :: "string \<Rightarrow> string" where
  "answer d =
     (if d = ''Hello'' then ''Hey''
      else if d = ''Hey'' then ''How are you''
      else if d = ''How are you'' then ''I'' @ [CHR 0x27] @ ''m fine, thank you''
      else ''I don'' @ [CHR 0x27] @ ''t understand'')"

definition goto :: "nat \<Rightarrow> runPc \<Rightarrow> talk \<Rightarrow> talk" where
  "goto i pc t = t\<lparr>nodes2 := (nodes2 t)[i := (nodes2 t ! i)\<lparr>runAt := pc\<rparr>]\<rparr>"

text \<open>The next step of \<open>Run\<close> of the node at position \<open>i\<close>.\<close>

definition Run :: "nat \<Rightarrow> talk \<Rightarrow> talk option" where
  "Run i t =
     (let n = nodes2 t ! i
      in case runAt n of
        Waiting \<Rightarrow> if inboxClosed n then Some (goto i Returned t) else None
      | Printing req \<Rightarrow>
          Some (goto i (Replying req) (print (RequestFrom (talkID n) (reqFrom req) (reqData req)) t))
      | Replying req \<Rightarrow>
          map_option (goto i (Closing req))
            (sendCh (replyCh req) \<lparr>resFrom = talkID n, resData = answer (reqData req)\<rparr> t)
      | Closing req \<Rightarrow> Some (goto i Waiting (closeCh (replyCh req) t))
      | Returned \<Rightarrow> None)"

text \<open>The program ends with its main goroutine.\<close>

fun ended :: "mainPc \<Rightarrow> bool" where
  "ended Exited \<longleftrightarrow> True"
| "ended (Panicked _) \<longleftrightarrow> True"
| "ended _ \<longleftrightarrow> False"

datatype goroutine = Main | RunOf nat

fun talkStep :: "goroutine \<Rightarrow> talk \<Rightarrow> talk option" where
  "talkStep Main t = (if ended (mainAt t) then None else StartConversation t)"
| "talkStep (RunOf i) t =
     (if ended (mainAt t) \<or> length (nodes2 t) \<le> i then None else Run i t)"

text \<open>A run of the program: the goroutine that moves at each step.\<close>

fun talkRun :: "goroutine list \<Rightarrow> talk \<Rightarrow> talk option" where
  "talkRun [] t = Some t"
| "talkRun (g # gs) t = (case talkStep g t of None \<Rightarrow> None | Some t' \<Rightarrow> talkRun gs t')"

section \<open>Exploring all runs\<close>

text \<open>The states one step away, and a bounded search through all runs for the ones that end well.\<close>

definition successors :: "talk \<Rightarrow> talk list" where
  "successors t = List.map_filter (\<lambda>g. talkStep g t) (Main # map RunOf [0..<length (nodes2 t)])"

fun allEnd :: "(talk \<Rightarrow> bool) \<Rightarrow> nat \<Rightarrow> talk \<Rightarrow> bool" where
  "allEnd ok 0 t \<longleftrightarrow> False"
| "allEnd ok (Suc k) t \<longleftrightarrow>
     (case successors t of [] \<Rightarrow> ok t | ts \<Rightarrow> list_all (allEnd ok k) ts)"

lemma set_map_filter: "set (List.map_filter f xs) = {y. \<exists>x \<in> set xs. f x = Some y}"
  by (induction xs) (auto simp: List.map_filter_simps split: option.splits)

lemma successors_iff: "t' \<in> set (successors t) \<longleftrightarrow> (\<exists>g. talkStep g t = Some t')"
proof -
  have "g \<in> set (Main # map RunOf [0..<length (nodes2 t)])" if "talkStep g t = Some t'" for g
    using that by (cases g) (simp_all split: if_splits)
  then show ?thesis unfolding successors_def set_map_filter by blast
qed

lemma successors_Nil: "successors t = [] \<longleftrightarrow> (\<forall>g. talkStep g t = None)"
proof -
  have "successors t = [] \<longleftrightarrow> (\<forall>t'. t' \<notin> set (successors t))" by (cases "successors t") auto
  also have "\<dots> \<longleftrightarrow> (\<forall>g. talkStep g t = None)" unfolding successors_iff by (metis not_Some_eq)
  finally show ?thesis .
qed

lemma allEnd_successor: "allEnd ok (Suc k) t \<Longrightarrow> talkStep g t = Some t' \<Longrightarrow> allEnd ok k t'"
  using successors_iff [of t' t] by (auto simp: list_all_iff split: list.splits)

text \<open>A successful search bounds every run, and every run that cannot go on ends well.\<close>

lemma allEnd_run: "allEnd ok k t \<Longrightarrow> talkRun gs t = Some t' \<Longrightarrow> length gs < k \<and> allEnd ok (k - length gs) t'"
proof (induction gs arbitrary: k t)
  case Nil
  then show ?case by (cases k) auto
next
  case (Cons g gs)
  obtain u where u: "talkStep g t = Some u" "talkRun gs u = Some t'"
    using Cons.prems(2) by (auto split: option.splits)
  obtain m where m: "k = Suc m" using Cons.prems(1) by (cases k) auto
  then have "allEnd ok m u" using Cons.prems(1) u(1) allEnd_successor by blast
  from Cons.IH [OF this u(2)] m show ?case by auto
qed

lemma allEnd_stuck: "allEnd ok k t \<Longrightarrow> \<forall>g. talkStep g t = None \<Longrightarrow> ok t"
  using successors_Nil [of t] by (cases k) auto

section \<open>Properties\<close>

definition transcript :: "string list" where
  "transcript =
     [''Conversation started'',
      ''[node 2] request from from node 1: Hello'',
      ''[node 1] response from node 2: Hey'',
      ''[node 2] request from from node 1: How are you'',
      ''[node 1] response from node 2: I'' @ [CHR 0x27] @ ''m fine, thank you'',
      ''Conversation finished'']"

definition talkDone :: "talk \<Rightarrow> bool" where
  "talkDone t \<longleftrightarrow> mainAt t = Exited \<and> map showLine (printed t) = transcript"

lemma all_runs_end: "allEnd talkDone 24 startTalk"
  by code_simp

text \<open>
  C16: The conversation always comes to its end: no interleaving of the three goroutines has more
  than 23 steps, and where none of them can move, the main goroutine has returned, not
  panicked, and the program has printed the conversation that the comment in \<open>main\<close> announces,
  in that order. So there is no deadlock and no send on a closed channel.
\<close>

theorem conversation_completes:
  assumes "talkRun gs startTalk = Some t"
  shows "length gs \<le> 23 \<and>
    ((\<forall>g. talkStep g t = None) \<longrightarrow> mainAt t = Exited \<and> map showLine (printed t) = transcript)"
proof -
  have "length gs < 24 \<and> allEnd talkDone (24 - length gs) t"
    by (rule allEnd_run [OF all_runs_end assms])
  then show ?thesis
    using allEnd_stuck [of talkDone "24 - length gs" t] by (auto simp: talkDone_def)
qed

definition oneConversation :: "goroutine list" where
  "oneConversation =
     [Main, Main, RunOf 1, RunOf 1, Main, RunOf 1, Main, Main, RunOf 1, RunOf 1, Main, RunOf 1,
      Main, Main, Main, Main]"

lemma oneConversation_ends:
  "\<exists>t. talkRun oneConversation startTalk = Some t \<and> mainAt t = Exited"
proof -
  have "(case talkRun oneConversation startTalk of None \<Rightarrow> False | Some t \<Rightarrow> mainAt t = Exited)"
    by code_simp
  then show ?thesis by (auto split: option.splits)
qed

theorem conversation_completes_witness:
  "\<exists>t. talkRun oneConversation startTalk = Some t \<and> map showLine (printed t) = transcript"
proof -
  obtain t where t: "talkRun oneConversation startTalk = Some t" "mainAt t = Exited"
    using oneConversation_ends by blast
  have "talkStep g t = None" for g using t(2) by (cases g) simp_all
  with conversation_completes [OF t(1)] t(1) show ?thesis by blast
qed

end
