(* ===== verification/Change_Log.thy ===== *)
theory Change_Log
  imports Strconv "HOL-Library.Char_ord" "HOL-Library.List_Lexorder"
begin

text \<open>
  The change log of \<open>src/internal/dbchangelog/db_change_log.go\<close>: the trigger function and the
  statements that install it (SQL and PL/pgSQL in the Go source), \<open>Setup\<close>, \<open>GetLogs\<close>, and the
  rendering of entries as a tree. JSON encoding and decoding, the formatting of times, the sorting
  by time (which is not stable in Go) and the connection are parameters.
\<close>

section \<open>The trigger function\<close>

text \<open>A row as \<open>TO_JSONB\<close> gives it: its columns with their values; \<open>->\<close> is \<open>map_of\<close>.\<close>

type_synonym 'j row = "(string \<times> 'j) list"

datatype tgOp = INSERT | UPDATE | DELETE

fun opName :: "tgOp \<Rightarrow> string" where
  "opName INSERT = ''INSERT''"
| "opName UPDATE = ''UPDATE''"
| "opName DELETE = ''DELETE''"

record 'j logRow =
  lTable :: string
  lOperation :: tgOp
  lPk :: "string \<rightharpoonup> 'j option"
  lRowData :: "'j row"
  lDiffs :: "(string \<rightharpoonup> 'j option \<times> 'j option) option"
  lTxid :: int
  lChangedAt :: int

text \<open>The loop over the primary key columns, which are absent for a table without a key.\<close>

fun pkLoop :: "string list \<Rightarrow> 'j row \<Rightarrow> (string \<rightharpoonup> 'j option) \<Rightarrow> (string \<rightharpoonup> 'j option)" where
  "pkLoop [] src pk = pk"
| "pkLoop (key # keys) src pk = pkLoop keys src (pk(key \<mapsto> map_of src key))"

text \<open>The loop over the keys of the new row.\<close>

fun diffLoop :: "string list \<Rightarrow> 'j row \<Rightarrow> 'j row \<Rightarrow> (string \<rightharpoonup> 'j option \<times> 'j option) \<Rightarrow>
    (string \<rightharpoonup> 'j option \<times> 'j option)" where
  "diffLoop [] old new diffs = diffs"
| "diffLoop (key # keys) old new diffs =
     diffLoop keys old new
       (if map_of new key \<noteq> map_of old key
        then diffs(key \<mapsto> (map_of old key, map_of new key)) else diffs)"

definition changeTrigger ::
  "string list option \<Rightarrow> string \<Rightarrow> tgOp \<Rightarrow> 'j row \<Rightarrow> 'j row \<Rightarrow> int \<Rightarrow> int \<Rightarrow> 'j logRow" where
  "changeTrigger pk_cols table tg_op old new txid now =
     (let src = (if tg_op = DELETE then old else new);
          pk = (case pk_cols of None \<Rightarrow> Map.empty | Some cols \<Rightarrow> pkLoop cols src Map.empty);
          diffs = (if tg_op = UPDATE then diffLoop (map fst new) old new Map.empty else Map.empty)
      in \<lparr>lTable = table, lOperation = tg_op, lPk = pk, lRowData = src,
          lDiffs = (if tg_op = UPDATE then Some diffs else None), lTxid = txid, lChangedAt = now\<rparr>)"

section \<open>Installing it\<close>

text \<open>
  The part of the current schema the statements touch: the tables and views that
  \<open>information_schema.tables\<close> lists, in the order of the list (no partitioned tables), the functions, and for every relation
  the triggers with the function they call. PostgreSQL folds a name without quotes to lower case,
  but takes a string literal and a name quoted by \<open>%I\<close> as they are, and cuts every name to 63 bytes:
  \<open>clip\<close>. A row-level \<open>AFTER\<close> trigger on a view is an error.
\<close>

datatype relKind = BaseTable | View

record schema =
  sRelations :: "(string \<times> relKind) list"
  sFunctions :: "string list"
  sTriggers :: "string \<Rightarrow> string \<rightharpoonup> string"

text \<open>An index cannot be created on a view of the log's name.\<close>

definition createTableSQL :: "(string \<Rightarrow> string) \<Rightarrow> string \<Rightarrow> schema \<Rightarrow> string + schema" where
  "createTableSQL clip logTable s =
     (let t = clip (map toLower logTable)
      in case map_of (sRelations s) t of
           Some View \<Rightarrow> Inl ''cannot create index on relation''
         | Some BaseTable \<Rightarrow> Inr s
         | None \<Rightarrow> Inr (s\<lparr>sRelations := sRelations s @ [(t, BaseTable)]\<rparr>))"

definition createTriggerFuncSQL :: "(string \<Rightarrow> string) \<Rightarrow> string \<Rightarrow> schema \<Rightarrow> string + schema" where
  "createTriggerFuncSQL clip logTable s =
     (let f = clip (map toLower (logTable @ ''_trigger''))
      in if f \<in> set (sFunctions s) then Inr s else Inr (s\<lparr>sFunctions := sFunctions s @ [f]\<rparr>))"

text \<open>The loop of \<open>createTriggersSQL\<close>; an error in it undoes the whole block.\<close>

fun triggerLoop :: "(string \<Rightarrow> string) \<Rightarrow> string \<Rightarrow> (string \<times> relKind) list \<Rightarrow> schema \<Rightarrow> string + schema" where
  "triggerLoop clip logTable [] s = Inr s"
| "triggerLoop clip logTable ((tbl, kind) # tbls) s =
     (if tbl = logTable then triggerLoop clip logTable tbls s
      else
        let trigger_name = clip (logTable @ ''_'' @ tbl); f = clip (map toLower (logTable @ ''_trigger''));
            dropped = (sTriggers s)(tbl := (sTriggers s tbl)(trigger_name := None))
        in if kind = View then Inl ''views cannot have row-level triggers''
           else if f \<notin> set (sFunctions s) then Inl ''function does not exist''
           else triggerLoop clip logTable tbls
                  (s\<lparr>sTriggers := dropped(tbl := (dropped tbl)(trigger_name \<mapsto> f))\<rparr>))"

definition createTriggersSQL :: "(string \<Rightarrow> string) \<Rightarrow> string \<Rightarrow> schema \<Rightarrow> string + schema" where
  "createTriggersSQL clip logTable s = triggerLoop clip logTable (sRelations s) s"

text \<open>The three texts with the name of the log put in, and what they do.\<close>

datatype sqlStmt =
    CreateTable string
  | CreateTriggerFunc string
  | CreateTriggers string

fun runSql :: "(string \<Rightarrow> string) \<Rightarrow> sqlStmt \<Rightarrow> schema \<Rightarrow> string + schema" where
  "runSql clip (CreateTable logTable) s = createTableSQL clip logTable s"
| "runSql clip (CreateTriggerFunc logTable) s = createTriggerFuncSQL clip logTable s"
| "runSql clip (CreateTriggers logTable) s = createTriggersSQL clip logTable s"

record Manager =
  tablePrefix :: string

definition getChangeLogTableName :: "Manager \<Rightarrow> string" where
  "getChangeLogTableName d = tablePrefix d @ ''_change_logs''"

text \<open>\<open>Setup\<close> over \<open>pgx.Connect\<close> and the \<open>Exec\<close> of the connection.\<close>

definition Setup :: "('w, string, unit) prog \<Rightarrow> (sqlStmt \<Rightarrow> ('w, string, unit) prog) \<Rightarrow>
    Manager \<Rightarrow> ('w, string, unit) prog" where
  "Setup connect exec d w =
     (case connect w of
        (Inl err, w1) \<Rightarrow> (Inl (''connect to DB failed: '' @ err), w1)
      | (Inr _, w1) \<Rightarrow>
          let changeLogTableName = getChangeLogTableName d
          in case exec (CreateTable changeLogTableName) w1 of
               (Inl err, w2) \<Rightarrow> (Inl (''db change log create table failed: '' @ err), w2)
             | (Inr _, w2) \<Rightarrow>
                 (case exec (CreateTriggerFunc changeLogTableName) w2 of
                    (Inl err, w3) \<Rightarrow> (Inl (''db change log create trigger func failed: '' @ err), w3)
                  | (Inr _, w3) \<Rightarrow>
                      (case exec (CreateTriggers changeLogTableName) w3 of
                         (Inl err, w4) \<Rightarrow> (Inl (''db change log create triggers failed: '' @ err), w4)
                       | (Inr _, w4) \<Rightarrow> (Inr (), w4))))"

section \<open>Reading the log\<close>

record Entry =
  Id :: int
  TableName :: string
  Operation :: string
  Pk :: "string option"
  RowData :: "string option"
  Diffs :: "string option"
  TxId :: "int option"
  ChangedAt :: int

text \<open>\<open>GetLogs\<close>: the error of \<open>CollectRows\<close>, which comes with an empty result, is not returned.\<close>

definition GetLogs ::
  "(string \<Rightarrow> string list \<Rightarrow> ('w, 'e, 'rows) prog) \<Rightarrow> ('rows \<Rightarrow> ('w, 'e, Entry list) prog) \<Rightarrow>
     Manager \<Rightarrow> string list \<Rightarrow> ('w, 'e, Entry list) prog" where
  "GetLogs query collectRows d tableNamesIn =
     bindp (query (''SELECT id, table_name, operation, pk, row_data, diffs, txid, changed_at FROM '' @
                   getChangeLogTableName d @ '' WHERE table_name = ANY($1)'') tableNamesIn)
       (\<lambda>rows w. case collectRows rows w of (Inl err, w1) \<Rightarrow> (Inr [], w1) | (Inr es, w1) \<Rightarrow> (Inr es, w1))"

section \<open>Rendering\<close>

text \<open>
  What the rendering uses of \<open>encoding/json\<close> and \<open>fmt\<close>: a decoded object is the list of its
  fields in the order of the iteration over the map.
\<close>

record 'v jsonLib =
  unmarshalMap :: "string \<Rightarrow> (string \<times> 'v) list option"
  decodeUseNumber :: "string \<Rightarrow> (string \<times> 'v) list option"
  unmarshalDiffs :: "string \<Rightarrow> (string \<times> (string \<rightharpoonup> 'v)) list option"
  marshalJson :: "'v \<Rightarrow> string option"
  showValue :: "'v \<Rightarrow> string"
  asNumber :: "'v \<Rightarrow> string option"
  nilValue :: 'v
  formatRFC3339 :: "int \<Rightarrow> string"

text \<open>The box-drawing characters in UTF-8.\<close>

definition dash :: string where "dash = [CHR 0xE2, CHR 0x94, CHR 0x80]"
definition tee :: string where "tee = [CHR 0xE2, CHR 0x94, CHR 0x9C] @ dash @ dash"
definition elbow :: string where "elbow = [CHR 0xE2, CHR 0x94, CHR 0x94] @ dash @ dash"
definition bar :: string where "bar = [CHR 0xE2, CHR 0x94, CHR 0x82]"
definition newline :: string where "newline = [CHR 0x0A]"

fun joinStr :: "string \<Rightarrow> string list \<Rightarrow> string" where
  "joinStr sep [] = []"
| "joinStr sep [p] = p"
| "joinStr sep (p # ps) = p @ sep @ joinStr sep ps"

definition formatValue :: "'v jsonLib \<Rightarrow> 'v \<Rightarrow> string" where
  "formatValue J v = (case marshalJson J v of None \<Rightarrow> showValue J v | Some b \<Rightarrow> b)"

definition renderRowData :: "'v jsonLib \<Rightarrow> string option \<Rightarrow> string \<Rightarrow> string" where
  "renderRowData J data indent =
     (case data of
        None \<Rightarrow> indent @ ''(no row data)'' @ newline
      | Some raw \<Rightarrow>
          (case decodeUseNumber J raw of
             None \<Rightarrow> indent @ ''(invalid row data)'' @ newline
           | Some obj \<Rightarrow>
               concat (map (\<lambda>(k, v).
                 (case asNumber J v of
                    Some n \<Rightarrow> indent @ tee @ '' '' @ k @ '' : '' @ n @ newline
                  | None \<Rightarrow> indent @ tee @ '' '' @ k @ '' : '' @ showValue J v @ newline)) obj)))"

text \<open>The lines of the sorted fields; only the last one has the elbow.\<close>

fun diffLines :: "'v jsonLib \<Rightarrow> (string \<rightharpoonup> (string \<rightharpoonup> 'v)) \<Rightarrow> string \<Rightarrow> string list \<Rightarrow> string" where
  "diffLines J obj indent [] = []"
| "diffLines J obj indent (k # keys) =
     (let diff = (case obj k of None \<Rightarrow> Map.empty | Some m \<Rightarrow> m);
          val = (\<lambda>f. formatValue J (case diff f of None \<Rightarrow> nilValue J | Some v \<Rightarrow> v))
      in indent @ (if keys = [] then elbow else tee) @ '' '' @ k @ '' : '' @ val ''old'' @ '' -> '' @ val ''new'' @
         newline @ diffLines J obj indent keys)"

definition renderDiffs :: "'v jsonLib \<Rightarrow> string option \<Rightarrow> string \<Rightarrow> string" where
  "renderDiffs J data indent =
     (case data of
        None \<Rightarrow> indent @ ''(no diffs)'' @ newline
      | Some raw \<Rightarrow>
          (case unmarshalDiffs J raw of
             None \<Rightarrow> indent @ ''(invalid diffs)'' @ newline
           | Some obj \<Rightarrow> diffLines J (map_of obj) indent (sort (map fst obj))))"

definition pkLine :: "'v jsonLib \<Rightarrow> Entry \<Rightarrow> string \<Rightarrow> string" where
  "pkLine J e indent =
     (let opr = map toUpper (Operation e)
      in if opr = ''UPDATE'' \<or> opr = ''DELETE'' then
           (case Pk e of
              None \<Rightarrow> []
            | Some raw \<Rightarrow>
                (case unmarshalMap J raw of
                   None \<Rightarrow> []
                 | Some pkMap \<Rightarrow>
                     indent @ ''     '' @ elbow @ '' [PK] : '' @
                     joinStr '', '' (map (\<lambda>(k, v). k @ ''='' @ formatValue J v) pkMap) @ newline))
         else [])"

definition renderEntry :: "'v jsonLib \<Rightarrow> Entry \<Rightarrow> string \<Rightarrow> string \<Rightarrow> string" where
  "renderEntry J e branch indent =
     (let opr = map toUpper (Operation e)
      in branch @ opr @ newline @
         indent @ elbow @ '' '' @ TableName e @ newline @
         pkLine J e indent @
         (if opr = ''INSERT'' \<or> opr = ''DELETE'' then renderRowData J (RowData e) (indent @ ''     '')
          else if opr = ''UPDATE'' then renderDiffs J (Diffs e) (indent @ ''     '')
          else indent @ ''     (unknown op)'' @ newline))"

definition txKey :: "Entry \<Rightarrow> string" where
  "txKey e = (case TxId e of None \<Rightarrow> ''Tx <none>'' | Some t \<Rightarrow> ''Tx '' @ itoa t)"

text \<open>The map \<open>grouped\<close>: the entries of a key in the order they come.\<close>

fun groupEntries :: "Entry list \<Rightarrow> (string \<times> Entry list) list \<Rightarrow> (string \<times> Entry list) list" where
  "groupEntries [] grouped = grouped"
| "groupEntries (e # es) grouped =
     groupEntries es
       (let k = txKey e
        in case map_of grouped k of
             None \<Rightarrow> grouped @ [(k, [e])]
           | Some g \<Rightarrow> map (\<lambda>(k', g'). if k' = k then (k', g' @ [e]) else (k', g')) grouped)"

definition renderGroup :: "'v jsonLib \<Rightarrow> string \<times> Entry list \<Rightarrow> string" where
  "renderGroup J kg =
     (case kg of (k, g) \<Rightarrow>
        k @ '' @ '' @ formatRFC3339 J (ChangedAt (hd g)) @ newline @
        concat (map (\<lambda>e. renderEntry J e ('' '' @ tee @ '' '') ('' '' @ bar @ ''    '')) g) @ newline)"

text \<open>The groups in the order of the sorted keys; \<open>sortSlice\<close> is the sorting by time.\<close>

definition treeGroups :: "(Entry list \<Rightarrow> Entry list) \<Rightarrow> Entry list \<Rightarrow> (string \<times> Entry list) list" where
  "treeGroups sortSlice entries =
     (let grouped = groupEntries (sortSlice entries) []
      in map (\<lambda>k. (k, the (map_of grouped k))) (sort (map fst grouped)))"

definition ToAsciiTreeString :: "'v jsonLib \<Rightarrow> (Entry list \<Rightarrow> Entry list) \<Rightarrow> Entry list \<Rightarrow> string" where
  "ToAsciiTreeString J sortSlice entries =
     (if entries = [] then [] else concat (map (renderGroup J) (treeGroups sortSlice entries)))"

section \<open>Replaying the log\<close>

lemma pkLoop_eq: "pkLoop cols src pk = (\<lambda>k. if k \<in> set cols then Some (map_of src k) else pk k)"
  by (induction cols arbitrary: pk) (auto simp: fun_eq_iff)

lemma diffLoop_eq:
  "diffLoop keys old new d = (\<lambda>k. if k \<in> set keys \<and> map_of new k \<noteq> map_of old k
     then Some (map_of old k, map_of new k) else d k)"
  by (induction keys arbitrary: d) (auto simp: fun_eq_iff)

text \<open>A table with a primary key, and the changes of single rows that the database allows.\<close>

definition keyOf :: "string list \<Rightarrow> 'j row \<Rightarrow> 'j option list" where
  "keyOf cols r = map (map_of r) cols"

datatype 'j change = Ins "'j row" | Upd "'j option list" "'j row" | Del "'j option list"

fun applyChange :: "string list \<Rightarrow> 'j change \<Rightarrow> ('j option list \<rightharpoonup> 'j row) \<Rightarrow>
    (tgOp \<times> 'j row \<times> 'j row \<times> ('j option list \<rightharpoonup> 'j row)) option" where
  "applyChange cols (Ins r) t =
     (if t (keyOf cols r) = None then Some (INSERT, [], r, t(keyOf cols r \<mapsto> r)) else None)"
| "applyChange cols (Upd k r) t =
     (case t k of
        None \<Rightarrow> None
      | Some old \<Rightarrow>
          if keyOf cols r = k \<or> t (keyOf cols r) = None
          then Some (UPDATE, old, r, (t(k := None))(keyOf cols r \<mapsto> r)) else None)"
| "applyChange cols (Del k) t =
     (case t k of None \<Rightarrow> None | Some old \<Rightarrow> Some (DELETE, old, [], t(k := None)))"

fun newRow :: "'j change \<Rightarrow> 'j row option" where
  "newRow (Ins r) = Some r"
| "newRow (Upd k r) = Some r"
| "newRow (Del k) = None"

text \<open>Changes with the transaction and the time of each; the trigger writes one entry per change.\<close>

fun runChanges :: "string list \<Rightarrow> string \<Rightarrow> ('j change \<times> int \<times> int) list \<Rightarrow> ('j option list \<rightharpoonup> 'j row) \<Rightarrow>
    (('j option list \<rightharpoonup> 'j row) \<times> 'j logRow list) option" where
  "runChanges cols table [] t = Some (t, [])"
| "runChanges cols table ((c, txid, now) # cs) t =
     (case applyChange cols c t of
        None \<Rightarrow> None
      | Some (opr, old, new, t1) \<Rightarrow>
          map_option (\<lambda>(t2, log). (t2, changeTrigger (Some cols) table opr old new txid now # log))
            (runChanges cols table cs t1))"

text \<open>What a reader makes of an entry: the key the row had before, from \<open>diffs\<close> and \<open>pk\<close>.\<close>

definition keyBefore :: "string list \<Rightarrow> 'j logRow \<Rightarrow> 'j option list" where
  "keyBefore cols e =
     map (\<lambda>c. case lDiffs e of
         Some d \<Rightarrow> (case d c of Some (old, new) \<Rightarrow> old | None \<Rightarrow> the (lPk e c))
       | None \<Rightarrow> the (lPk e c)) cols"

definition replayEntry :: "string list \<Rightarrow> ('j option list \<rightharpoonup> 'j row) \<Rightarrow> 'j logRow \<Rightarrow> ('j option list \<rightharpoonup> 'j row)" where
  "replayEntry cols t e =
     (case lOperation e of
        INSERT \<Rightarrow> t(keyBefore cols e \<mapsto> lRowData e)
      | UPDATE \<Rightarrow> (t(keyBefore cols e := None))(keyOf cols (lRowData e) \<mapsto> lRowData e)
      | DELETE \<Rightarrow> t(keyBefore cols e := None))"

definition keyed :: "string list \<Rightarrow> ('j option list \<rightharpoonup> 'j row) \<Rightarrow> bool" where
  "keyed cols t \<longleftrightarrow> (\<forall>k r. t k = Some r \<longrightarrow> keyOf cols r = k)"

lemma keyBefore_trigger:
  assumes "tg_op = UPDATE \<Longrightarrow> set cols \<subseteq> fst ` set new"
  shows "keyBefore cols (changeTrigger (Some cols) table tg_op old new txid now) =
    keyOf cols (if tg_op = INSERT then new else old)"
  using assms
  by (cases tg_op) (auto simp: keyBefore_def changeTrigger_def keyOf_def Let_def pkLoop_eq diffLoop_eq
      subset_iff image_iff)

lemma applyChange_keyed:
  assumes "applyChange cols c t = Some (opr, old, new, t1)" "keyed cols t"
  shows "keyed cols t1"
  using assms by (cases c) (auto simp: keyed_def split: option.splits if_splits)

lemma applyChange_replay:
  assumes "applyChange cols c t = Some (opr, old, new, t1)" "keyed cols t"
    and "\<And>r. newRow c = Some r \<Longrightarrow> set cols \<subseteq> fst ` set r"
  shows "replayEntry cols t (changeTrigger (Some cols) table opr old new txid now) = t1"
proof (cases c)
  case (Ins r)
  then have c: "opr = INSERT" "new = r" "t1 = t(keyOf cols r \<mapsto> r)"
    using assms(1) by (auto split: if_splits)
  have "keyBefore cols (changeTrigger (Some cols) table opr old new txid now) = keyOf cols r"
    using keyBefore_trigger [of opr cols new table old txid now] c by simp
  then show ?thesis using c by (simp add: replayEntry_def changeTrigger_def Let_def)
next
  case (Upd k r)
  then obtain x where c: "opr = UPDATE" "new = r" "old = x" "t k = Some x"
      "t1 = (t(k := None))(keyOf cols r \<mapsto> r)"
    using assms(1) by (auto split: option.splits if_splits)
  have "keyBefore cols (changeTrigger (Some cols) table opr old new txid now) = k"
    using keyBefore_trigger [of opr cols new table old txid now] c assms(2,3) Upd by (simp add: keyed_def)
  then show ?thesis using c by (simp add: replayEntry_def changeTrigger_def Let_def)
next
  case (Del k)
  then obtain x where c: "opr = DELETE" "old = x" "t k = Some x" "t1 = t(k := None)"
    using assms(1) by (auto split: option.splits)
  have "keyBefore cols (changeTrigger (Some cols) table opr old new txid now) = k"
    using keyBefore_trigger [of opr cols new table old txid now] c assms(2) by (simp add: keyed_def)
  then show ?thesis using c by (simp add: replayEntry_def changeTrigger_def Let_def)
qed

lemma runChanges_replay:
  assumes "runChanges cols table cs t = Some (t', log)" "keyed cols t"
    and "list_all (\<lambda>(c, _, _). \<forall>r. newRow c = Some r \<longrightarrow> set cols \<subseteq> fst ` set r) cs"
  shows "foldl (replayEntry cols) t log = t'"
  using assms
proof (induction cs arbitrary: t log)
  case (Cons x cs)
  obtain c txid now where x: "x = (c, txid, now)" by (cases x)
  with Cons.prems(1) obtain opr old new t1 log1 where step: "applyChange cols c t = Some (opr, old, new, t1)"
    "runChanges cols table cs t1 = Some (t', log1)"
    "log = changeTrigger (Some cols) table opr old new txid now # log1"
    by (auto split: option.splits)
  have rows: "\<And>r. newRow c = Some r \<Longrightarrow> set cols \<subseteq> fst ` set r" using Cons.prems(3) x by auto
  have "foldl (replayEntry cols) t1 log1 = t'"
    using Cons.IH [OF step(2) applyChange_keyed [OF step(1) Cons.prems(2)]] Cons.prems(3) by simp
  then show ?case
    using step(3) applyChange_replay [OF step(1) Cons.prems(2) rows] by simp
qed simp

section \<open>Grouping\<close>

lemma map_of_extend:
  "map_of (map (\<lambda>(k', g'). if k' = k then (k', f g') else (k', g')) gs) x =
     (if x = k then map_option f (map_of gs k) else map_of gs x)"
  by (induction gs) auto

lemma groupEntries_keys:
  "distinct (map fst gs) \<Longrightarrow> distinct (map fst (groupEntries es gs)) \<and>
     set (map fst (groupEntries es gs)) = set (map fst gs) \<union> txKey ` set es"
proof (induction es arbitrary: gs)
  case (Cons e es)
  let ?gs = "case map_of gs (txKey e) of None \<Rightarrow> gs @ [(txKey e, [e])]
    | Some g \<Rightarrow> map (\<lambda>(k', g'). if k' = txKey e then (k', g' @ [e]) else (k', g')) gs"
  have fsts: "map fst (map (\<lambda>(k', g'). if k' = txKey e then (k', g' @ [e]) else (k', g')) gs) = map fst gs"
    by (induction gs) auto
  have "distinct (map fst ?gs) \<and> set (map fst ?gs) = insert (txKey e) (set (map fst gs))"
  proof (cases "map_of gs (txKey e)")
    case None
    then have "txKey e \<notin> set (map fst gs)" by (simp add: map_of_eq_None_iff)
    with None Cons.prems show ?thesis by (simp only: option.case) auto
  next
    case (Some g)
    then have "txKey e \<in> set (map fst gs)" by (force dest: map_of_SomeD)
    with Some Cons.prems fsts show ?thesis by (simp only: option.case) auto
  qed
  with Cons.IH [of ?gs] show ?case by (simp add: Let_def)
qed simp

lemma groupEntries_lookup:
  "map_of (groupEntries es gs) k =
     (case map_of gs k of
        Some g \<Rightarrow> Some (g @ filter (\<lambda>e. txKey e = k) es)
      | None \<Rightarrow> if k \<in> txKey ` set es then Some (filter (\<lambda>e. txKey e = k) es) else None)"
proof (induction es arbitrary: gs)
  case (Cons e es)
  show ?case
  proof (cases "map_of gs (txKey e)")
    case None
    then show ?thesis
      by (cases "map_of gs k") (auto simp: Cons.IH map_add_def filter_empty_conv image_iff split: option.splits)
  next
    case (Some g)
    then show ?thesis
      by (cases "map_of gs k") (auto simp: Cons.IH map_of_extend split: option.splits)
  qed
qed (simp split: option.splits)

lemma mset_concat_filter:
  assumes "distinct ks" "f ` set es \<subseteq> set ks"
  shows "mset (concat (map (\<lambda>k. filter (\<lambda>e. f e = k) es) ks)) = mset es"
proof (rule multiset_eqI)
  fix x
  have "count (mset (concat (map (\<lambda>k. filter (\<lambda>e. f e = k) es) ks))) x =
      (\<Sum>k \<leftarrow> ks. if f x = k then count (mset es) x else 0)"
    by (induction ks) (auto simp: count_mset)
  also have "\<dots> = (\<Sum>k \<in> set ks. if f x = k then count (mset es) x else 0)"
    using assms(1) by (simp add: sum_list_distinct_conv_sum_set)
  also have "\<dots> = count (mset es) x"
    using assms(2) by (auto simp: count_eq_zero_iff)
  finally show "count (mset (concat (map (\<lambda>k. filter (\<lambda>e. f e = k) es) ks))) x = count (mset es) x" .
qed

lemma treeGroups_eq:
  "treeGroups sortSlice es =
     map (\<lambda>k. (k, filter (\<lambda>e. txKey e = k) (sortSlice es))) (sorted_list_of_set (txKey ` set (sortSlice es)))"
proof -
  let ?g = "groupEntries (sortSlice es) []"
  have keys: "distinct (map fst ?g)" "set (map fst ?g) = txKey ` set (sortSlice es)"
    using groupEntries_keys [of "[]" "sortSlice es"] by simp_all
  then have "sort (map fst ?g) = sorted_list_of_set (txKey ` set (sortSlice es))"
    by (metis sorted_list_of_set_sort_remdups distinct_remdups_id)
  then show ?thesis
    by (simp add: treeGroups_def Let_def groupEntries_lookup)
qed

text \<open>The heading of a transaction identifies it.\<close>

definition txHeading :: "int option \<Rightarrow> string" where
  "txHeading t = (case t of None \<Rightarrow> ''Tx <none>'' | Some n \<Rightarrow> ''Tx '' @ itoa n)"

lemma txKey_heading: "txKey e = txHeading (TxId e)"
  by (simp add: txKey_def txHeading_def)

lemma digits_inject: "digits m = digits n \<longleftrightarrow> m = n"
  by (metis option.inject parseDigits_digits)

lemma itoa_inject: "itoa i = itoa j \<longleftrightarrow> i = j"
  using digits_first [of "nat i"] digits_first [of "nat j"] isDigit_sign(1)
  by (auto simp: itoa_def digits_inject)

lemma itoa_not_none: "itoa i \<noteq> ''<none>''"
proof -
  have "\<not> isDigit CHR ''<''" by code_simp
  then show ?thesis using digits_first [of "nat i"] by (auto simp: itoa_def)
qed

lemma txHeading_eq_iff: "txHeading t = txHeading u \<longleftrightarrow> t = u"
  using itoa_not_none by (auto simp: txHeading_def itoa_inject split: option.splits) (metis)+

lemma headings_of_keys:
  "\<exists>ts. map txHeading ts = sorted_list_of_set (txKey ` set es) \<and> set ts = TxId ` set es \<and> distinct ts"
proof -
  let ?ks = "sorted_list_of_set (txHeading ` TxId ` set es)"
  have ks: "txKey ` set es = txHeading ` TxId ` set es" by (simp add: txKey_heading image_image)
  have inj: "inj txHeading" by (simp add: inj_def txHeading_eq_iff)
  let ?ts = "map (inv txHeading) ?ks"
  have "txHeading (inv txHeading k) = k" if "k \<in> set ?ks" for k
    using that inj by (auto simp: inv_f_f)
  then have h: "map txHeading ?ts = ?ks" unfolding map_map by (intro map_idI) simp
  have "txHeading ` set ?ts = txHeading ` TxId ` set es" using h by (metis finite_imageI finite_set list.set_map set_sorted_list_of_set)
  then have "set ?ts = TxId ` set es" using inj by (simp add: inj_image_eq_iff)
  moreover have "distinct ?ts" using h distinct_sorted_list_of_set by (metis distinct_map)
  ultimately show ?thesis using h ks by (intro exI [of _ ?ts]) simp
qed

lemma first_is_earliest:
  assumes "sorted (map f xs)" "xs \<noteq> []"
  shows "f (hd xs) = Min (f ` set xs)"
  using assms by (cases xs) (auto intro!: Min_eqI [symmetric])

section \<open>The server the log is installed on\<close>













text \<open>A server on which every statement that can be executed is.\<close>

definition runExec :: "sqlStmt \<Rightarrow> (schema, string, unit) prog" where
  "runExec st s = (case runSql (take 63) st s of Inl e \<Rightarrow> (Inl e, s) | Inr s' \<Rightarrow> (Inr (), s'))"


section \<open>Properties\<close>

text \<open>
  C13: The change log tells the whole history of a table. After any sequence of inserted, updated
  and deleted rows of a table with a primary key, the table can be rebuilt from the entries the
  trigger has written: the key and the difference an entry records identify the row that changed,
  also where an update changes the primary key itself.
\<close>

theorem log_rebuilds_table:
  assumes "runChanges cols table cs Map.empty = Some (t, log)"
    and "list_all (\<lambda>(c, _, _). \<forall>r. newRow c = Some r \<longrightarrow> set cols \<subseteq> fst ` set r) cs"
  shows "foldl (replayEntry cols) Map.empty log = t"
  by (rule runChanges_replay [OF assms(1) _ assms(2)]) (simp add: keyed_def)

definition demoChanges :: "(int change \<times> int \<times> int) list" where
  "demoChanges =
     [(Ins [(''id'', 1), (''n'', 10)], 7, 100),
      (Upd [Some 1] [(''id'', 2), (''n'', 10)], 8, 200)]"

theorem log_rebuilds_table_witness:
  "\<exists>t log. runChanges [''id''] ''accounts'' demoChanges Map.empty = Some (t, log) \<and>
     foldl (replayEntry [''id'']) Map.empty log = t \<and> t [Some 2] = Some [(''id'', 2), (''n'', 10)]"
proof -
  obtain t log where r: "runChanges [''id''] ''accounts'' demoChanges Map.empty = Some (t, log)"
    and t: "t [Some 2] = Some [(''id'', 2), (''n'', 10)]"
    by (simp add: demoChanges_def keyOf_def)
  have "foldl (replayEntry [''id'']) Map.empty log = t"
    by (rule log_rebuilds_table [OF r]) (simp add: demoChanges_def)
  with r t show ?thesis by blast
qed

text \<open>
  C30: The text of the tree shows every entry exactly once. It is a block for each transaction that
  occurs among the entries, one block for the entries without a transaction included; the headings
  are sorted as strings. A block holds its heading with the time of the earliest entry, then
  each entry of that transaction rendered, in the order of time, and a blank line. \<open>sortSlice\<close> is any
  sorting by time, since \<open>sort.Slice\<close> does not say how it orders entries of the same time.
\<close>

theorem tree_shows_all_entries:
  assumes "mset (sortSlice es) = mset es" "sorted (map ChangedAt (sortSlice es))"
  shows "\<exists>ts. distinct ts \<and> set ts = TxId ` set es \<and> sorted (map txHeading ts) \<and>
    ToAsciiTreeString J sortSlice es =
      concat (map (\<lambda>t. txHeading t @ '' @ '' @ formatRFC3339 J (Min (ChangedAt ` {e \<in> set es. TxId e = t})) @ newline @
        concat (map (\<lambda>e. renderEntry J e ('' '' @ tee @ '' '') ('' '' @ bar @ ''    ''))
          (filter (\<lambda>e. TxId e = t) (sortSlice es))) @ newline) ts) \<and>
    mset (concat (map (\<lambda>t. filter (\<lambda>e. TxId e = t) (sortSlice es)) ts)) = mset es \<and>
    (\<forall>t \<in> set ts. sorted (map ChangedAt (filter (\<lambda>e. TxId e = t) (sortSlice es))))"
proof -
  let ?block = "\<lambda>t. txHeading t @ '' @ '' @ formatRFC3339 J (Min (ChangedAt ` {e \<in> set es. TxId e = t})) @ newline @
    concat (map (\<lambda>e. renderEntry J e ('' '' @ tee @ '' '') ('' '' @ bar @ ''    ''))
      (filter (\<lambda>e. TxId e = t) (sortSlice es))) @ newline"
  have same: "set (sortSlice es) = set es" using assms(1) by (rule mset_eq_setD)
  obtain ts where ts: "map txHeading ts = sorted_list_of_set (txKey ` set es)" "set ts = TxId ` set es" "distinct ts"
    using headings_of_keys by blast
  have keys: "txKey e = txHeading t \<longleftrightarrow> TxId e = t" for e t by (simp add: txKey_heading txHeading_eq_iff)
  have block: "renderGroup J (txHeading t, filter (\<lambda>e. TxId e = t) (sortSlice es)) = ?block t" if "t \<in> set ts" for t
  proof -
    have "filter (\<lambda>e. TxId e = t) (sortSlice es) \<noteq> []"
      using that ts(2) same by (auto simp: filter_empty_conv)
    from first_is_earliest [OF sorted_filter [OF assms(2)] this] same
    show ?thesis by (simp add: renderGroup_def)
  qed
  have "treeGroups sortSlice es = map (\<lambda>t. (txHeading t, filter (\<lambda>e. TxId e = t) (sortSlice es))) ts"
    unfolding treeGroups_eq same ts(1) [symmetric] by (simp add: comp_def keys)
  then have "ToAsciiTreeString J sortSlice es =
      concat (map (\<lambda>t. renderGroup J (txHeading t, filter (\<lambda>e. TxId e = t) (sortSlice es))) ts)"
    using ts(2) by (cases "es = []") (simp_all add: ToAsciiTreeString_def comp_def)
  also have "\<dots> = concat (map ?block ts)"
    by (intro arg_cong [of _ _ concat] map_cong [OF refl block])
  finally have shown: "ToAsciiTreeString J sortSlice es = concat (map ?block ts)" .
  have all: "mset (concat (map (\<lambda>t. filter (\<lambda>e. TxId e = t) (sortSlice es)) ts)) = mset es"
    using mset_concat_filter [OF ts(3), of TxId "sortSlice es"] ts(2) same assms(1) by simp
  show ?thesis
    by (intro exI [of _ ts] conjI ballI sorted_filter [OF assms(2)] ts(2,3) shown all) (simp add: ts(1))
qed

definition demoJson :: "int jsonLib" where
  "demoJson = \<lparr>unmarshalMap = \<lambda>_. None, decodeUseNumber = \<lambda>_. None,
     unmarshalDiffs = \<lambda>_. Some [(''b'', [''old'' \<mapsto> 1, ''new'' \<mapsto> 2]), (''a'', [''old'' \<mapsto> 3, ''new'' \<mapsto> 4])],
     marshalJson = \<lambda>v. Some (itoa v), showValue = itoa, asNumber = \<lambda>_. None, nilValue = 0,
     formatRFC3339 = itoa\<rparr>"

definition demoEntry :: "int \<Rightarrow> int \<Rightarrow> Entry" where
  "demoEntry t at = \<lparr>Id = t, TableName = ''accounts'', Operation = ''INSERT'', Pk = None,
     RowData = None, Diffs = None, TxId = Some t, ChangedAt = at\<rparr>"

theorem tree_shows_all_entries_witness:
  "\<exists>ts. distinct ts \<and> set ts = {Some 9, Some 10} \<and>
    ToAsciiTreeString demoJson (sort_key ChangedAt) [demoEntry 10 200, demoEntry 9 100] =
      concat (map (\<lambda>t. txHeading t @ '' @ '' @
          formatRFC3339 demoJson (Min (ChangedAt ` {e \<in> {demoEntry 10 200, demoEntry 9 100}. TxId e = t})) @ newline @
        concat (map (\<lambda>e. renderEntry demoJson e ('' '' @ tee @ '' '') ('' '' @ bar @ ''    ''))
          (filter (\<lambda>e. TxId e = t) [demoEntry 9 100, demoEntry 10 200])) @ newline) ts)"
proof -
  have s: "sort_key ChangedAt [demoEntry 10 200, demoEntry 9 100] = [demoEntry 9 100, demoEntry 10 200]"
    by (simp add: demoEntry_def)
  have t: "TxId ` set [demoEntry 10 200, demoEntry 9 100] = {Some 9, Some 10}" by (auto simp: demoEntry_def)
  from tree_shows_all_entries [of "sort_key ChangedAt" "[demoEntry 10 200, demoEntry 9 100]" demoJson]
  show ?thesis unfolding s t by (auto simp: demoEntry_def)
qed

text \<open>
  The headings are compared as strings: transaction 10 is shown before transaction 9, although
  it is later.
\<close>

lemma tree_order_is_lexicographic:
  "map fst (treeGroups (\<lambda>es. es) [demoEntry 9 100, demoEntry 10 200]) = [''Tx 10'', ''Tx 9'']"
  by code_simp

text \<open>
  What \<open>renderDiffs\<close> prints does not depend on the order in which Go iterates over the decoded
  object: the fields are sorted first, and two decodings of the same fields in different orders
  give the same text.
\<close>

theorem renderDiffs_deterministic:
  assumes "unmarshalDiffs J raw = Some obj" "mset obj' = mset obj" "distinct (map fst obj)"
  shows "renderDiffs (J\<lparr>unmarshalDiffs := \<lambda>_. Some obj'\<rparr>) (Some raw) indent = renderDiffs J (Some raw) indent"
proof -
  have "mset (map fst obj') = mset (map fst obj)" using assms(2) by simp
  then have keys: "sort (map fst obj') = sort (map fst obj)" "distinct (map fst obj')"
    using properties_for_sort [of "sort (map fst obj')" "map fst obj"]
      mset_eq_imp_distinct_iff [of "map fst obj'" "map fst obj"] assms(3) by simp_all
  have obj: "map_of obj' = map_of obj"
    by (rule map_of_inject_set [THEN iffD2]) (use keys(2) assms in \<open>auto dest: mset_eq_setD\<close>)
  have "diffLines (J\<lparr>unmarshalDiffs := u\<rparr>) m ind ks = diffLines J m ind ks" for u m ind ks
    by (induction ks) (simp_all add: formatValue_def Let_def cong: option.case_cong)
  with assms(1) show ?thesis by (simp add: renderDiffs_def keys(1) obj)
qed

theorem renderDiffs_deterministic_witness:
  "renderDiffs (demoJson\<lparr>unmarshalDiffs := \<lambda>_. Some [(''a'', [''old'' \<mapsto> 3, ''new'' \<mapsto> 4]), (''b'', [''old'' \<mapsto> 1, ''new'' \<mapsto> 2])]\<rparr>)
     (Some ''{}'') [] = renderDiffs demoJson (Some ''{}'') []"
  by (rule renderDiffs_deterministic [where obj = "[(''b'', [''old'' \<mapsto> 1, ''new'' \<mapsto> 2]), (''a'', [''old'' \<mapsto> 3, ''new'' \<mapsto> 4])]"])
     (simp_all add: demoJson_def)


definition demoSchema :: schema where
  "demoSchema = \<lparr>sRelations = [(''accounts'', BaseTable)], sFunctions = [], sTriggers = \<lambda>_. Map.empty\<rparr>"


text \<open>
  With an upper-case letter in the prefix the table is created under the folded name, which the
  list of skipped tables does not hold: the log gets the trigger itself, and every entry it writes
  would be logged again. A view in the schema makes \<open>Setup\<close> fail, after the table and the function
  have been created.
\<close>

lemma upper_case_prefix_logs_the_log:
  "fst (Setup (returnp ()) runExec \<lparr>tablePrefix = ''Bank''\<rparr> demoSchema) = Inr () \<and>
   sTriggers (snd (Setup (returnp ()) runExec \<lparr>tablePrefix = ''Bank''\<rparr> demoSchema)) ''bank_change_logs''
     ''Bank_change_logs_bank_change_logs'' = Some ''bank_change_logs_trigger''"
  by code_simp

lemma view_fails_setup:
  "fst (Setup (returnp ()) runExec \<lparr>tablePrefix = ''bank''\<rparr>
     (demoSchema\<lparr>sRelations := [(''accounts'', BaseTable), (''balances_view'', View)]\<rparr>)) =
   Inl ''db change log create triggers failed: views cannot have row-level triggers''"
  by code_simp

text \<open>The error of \<open>CollectRows\<close> is lost: the caller sees an empty log and no error.\<close>

lemma getLogs_loses_error:
  assumes "query q ts w = (Inr rows, w1)" "collectRows rows w1 = (Inl err, w2)"
    and "q = ''SELECT id, table_name, operation, pk, row_data, diffs, txid, changed_at FROM '' @
       getChangeLogTableName d @ '' WHERE table_name = ANY($1)''"
  shows "GetLogs query collectRows d ts w = (Inr [], w2)"
  using assms by (simp add: GetLogs_def bindp_def)

end
