(* ===== verification/Spec2Isabelle.thy ===== *)
theory Spec2Isabelle
  imports Raft_Election Raft_Process Bank_Api Migrations Bank_Config Http_Server Job_Queue Node_Talk
    Change_Log
begin

text \<open>
  A verification of the Go programs of this repository: a Raft leader election, a bank with a
  PostgreSQL database, and four small servers and libraries. Every Go function that decides
  something is a HOL function in one of the theories below, under the name it has in the source
  where that is possible, and the theorems say what the programs guarantee and, in some places, what
  they do not.

  \<^bold>\<open>Conventions.\<close> Go's \<open>int\<close> and \<open>int64\<close> are integers whose arithmetic goes through \<open>i64\<close>, the
  wrap-around at 64 bits, wherever a result can leave the range. A function that can fail or panic
  returns a sum with the error on the left; a function that changes the outside world passes it
  along (\<open>prog\<close>, with \<open>bindp\<close> for \<open>if err != nil\<close>). Code that is not in the repository (pgx and
  PostgreSQL, the JSON and YAML decoders, the snowflake package, the clock, the HTTP client) is a
  parameter; what is relied on is stated by locales or as hypotheses, and every locale is
  interpreted on a concrete model. The order of an iteration over a Go map is an argument.

  \<^bold>\<open>Prelude and Strconv.\<close> \<open>Prelude\<close> has the 64-bit integers, results, programs over a world and
  the shared lemmas. \<open>Strconv\<close> has \<open>strconv.ParseInt\<close>, \<open>Atoi\<close>, \<open>Itoa\<close> and the ASCII letter case,
  with the round trips between printing and parsing.

  \<^bold>\<open>Raft\<close> (\<open>src/internal/raft\<close>, \<open>src/cmd/raft\<close>, \<open>src/internal/raft_test\<close>).
  \<^item> \<open>Raft_Node\<close> is \<open>node.go\<close>: the record \<open>node\<close>, the four message handlers, the timer and the role
    transitions as functions to a node or a panic. \<open>node_move\<close> is the abstract view of one step that
    the later proofs use. Shown: well-formedness is kept, one vote per term, which steps panic, how
    a vote request is answered and how a node becomes leader.
  \<^item> \<open>Raft_Cluster\<close> and \<open>Raft_Safety\<close> run processes over a network that loses and reorders
    messages. The locale \<open>quorums\<close> states that quorums meet and is interpreted for the majorities of
    odd clusters. Election safety is proved for runs in which no granted vote of an earlier term is
    delivered to a candidate (\<open>fresh\<close>), and it is shown that without this proviso, or with an even
    number of nodes, two leaders of one term are reachable.
  \<^item> \<open>Raft_Process\<close> is \<open>main\<close>: environment variables, peers and URLs, the ticker and the sending.
  \<^item> \<open>Raft_Harness\<close>, \<open>Raft_Harness_Sim\<close> and \<open>Raft_Election\<close> are the test cluster of
    \<open>raft_test/cluster.go\<close>. Its delivery loop is a \<open>partial_function\<close>; it is proved to return for
    every state. The locale \<open>drain_invariant\<close> states what a property must satisfy to survive the
    loop. Interpreted with the simulation into \<open>Raft_Cluster\<close> it gives safety of all test runs with an
    odd number of nodes, for filters and sorters without a state of their own; interpreted with the progress of one election it gives liveness: the node with the shortest
    timeout is elected at its timeout.

  \<^bold>\<open>Bank\<close> (\<open>src/internal/bank\<close>, \<open>src/cmd/bank\<close>).
  \<^item> \<open>Bank_Model\<close>: \<open>models.go\<close>, \<open>dto.go\<close>, \<open>errors.go\<close>. \<open>Bank_Repo\<close>: \<open>repo.go\<close>, every function with its
    SQL text, over a backend record.
  \<^item> \<open>Bank_Store\<close>: the locale \<open>postgres\<close>, the laws of the statements and of transactions that the code
    relies on, failures included; a commit may be lost after it took effect.
  \<^item> \<open>Bank_Service\<close>: \<open>service.go\<close>, every method with the closure of its transaction.
  \<^item> \<open>Bank_Ledger\<close>: an abstract ledger, and the refinement of the service to it inside the locale.
    \<open>Bank_Invariants\<close>: integrity, the match of balances and history, solvency.
  \<^item> \<open>Bank_Engine\<close>: a concrete engine for the statements of the repository, with the interpretations
    of \<open>postgres\<close> and of \<open>postgres_up\<close>, a server that answers every statement.
  \<^item> \<open>Bank_Safety\<close>, \<open>Bank_Outcomes\<close>: the properties of calls and of sequences of calls, and the exact
    outcome of each call on a server that is up. \<open>Bank_Api\<close>: the handlers of \<open>api.go\<close>.
  \<^item> \<open>Bank_Config\<close>: \<open>config.go\<close> and the start of the server in \<open>cmd/bank/main.go\<close>.

  \<^bold>\<open>Migrations\<close> (\<open>src/internal/bank_migrations\<close>, \<open>src/cmd/bank_migrations\<close>): the statements and the
  runner in both directions over the locale \<open>migration_db\<close>, with a concrete engine. Up leaves the
  schema at a version whatever fails, and at the target when it succeeds. The locale \<open>migration_up\<close> is a
  server that is up, on which the version statements still fail while the version table is missing;
  there both directions succeed from every version, because the runner creates that table first.

  \<^bold>\<open>Http_Server\<close> (\<open>src/internal/httpserver\<close>, \<open>src/cmd/httpserver\<close>): parsing of a connection, writing of
  responses. The outcome of every connection is characterized: the request the handler gets, or how
  the whole process ends. Requests with clean ASCII headers are parsed back as printed when one read
  returns the body, and responses with such headers are framed by their length. How many bytes a
  read returns is a parameter; read errors other than the end of the input and running out of memory
  are left out.

  \<^bold>\<open>Job_Queue\<close> (\<open>src/cmd/jobqueue\<close>) and \<open>Node_Talk\<close> (\<open>src/cmd/nodetalk\<close>): goroutines and channels as
  state machines whose runs are all interleavings. Every handler gets the result of its own job and
  the worker is never stuck; the conversation always ends as announced.

  \<^bold>\<open>Change_Log\<close> (\<open>src/internal/dbchangelog\<close>): the trigger function, \<open>Setup\<close>, \<open>GetLogs\<close> and the tree.
  The log suffices to rebuild a table, and the text of the tree shows every entry once. The three
  statements of \<open>Setup\<close> are modelled with the case folding and cutting of names and with views; the
  locale \<open>log_server\<close> is a server that may refuse any of them. A reported success means that the triggers
  are on all tables but the log, for a short lower-case prefix.

  \<^bold>\<open>Bounds.\<close> There is no fuel except in \<open>allEnd\<close> of \<open>Node_Talk\<close>, a search whose success with 24 steps
  is itself the bound that is proved. Raft runs assume that terms stay below the largest \<open>int\<close> minus
  one, that is fewer than \<open>2 ^ 63\<close> elections, and clusters of fewer than \<open>2 ^ 62\<close> nodes.

  \<^bold>\<open>Not modelled.\<close> Logging; the routers and servers of net/http and chi and the accept loop of
  \<open>Serve\<close>; the encoding of JSON; \<open>id_provider.go\<close> and \<open>time_provider.go\<close>, which only wrap the
  snowflake package and the clock and whose results are parameters of the service; contexts and
  their timeouts, which show as failures of the backend; the test functions themselves.

  \<^bold>\<open>What the proofs found.\<close> Late votes are counted (\<open>node.go\<close> line 225) and the vote threshold is not a
  majority for even clusters (line 227). A transfer to the same account creates money, a negative
  transfer overdraws the target, and credits can wrap around (\<open>service.go\<close>). A missing
  \<open>RAFT_NODE_COUNT\<close> makes a process lead alone. Malformed requests, short reads and closed
  connections end the HTTP server. An upper-case prefix puts the trigger of the change log on the log
  itself, and a view makes \<open>Setup\<close> fail. \<open>GetLogs\<close> loses an error, and the tree orders transactions by
  the text of their number.
\<close>

end
